theory Spec2Isabelle
  imports Main "HOL-Library.Word"
begin

section \<open>Strings of UTF-16 code units\<close>

text \<open>
  A JavaScript string is a sequence of 16-bit code units, and a regular expression
  without the \<^verbatim>\<open>u\<close> flag matches code unit by code unit. The two patterns of
  \<^verbatim>\<open>regex_iso8601_datetime.js\<close> carry no flag at all.
\<close>

type_synonym cu = "16 word"

type_synonym jsstring = "cu list"

definition cu :: "char \<Rightarrow> cu" where
  "cu c = of_char c"

definition str :: "string \<Rightarrow> jsstring" where
  "str s = map cu s"

section \<open>Patterns\<close>

text \<open>
  The abstract syntax of the pattern language, as far as the two literals use it:
  a literal character, a character class (a list of inclusive ranges; \<^verbatim>\<open>\d\<close> is
  the range 0-9), sequence, alternation \<^verbatim>\<open>|\<close>, the greedy bounded quantifier
  \<^verbatim>\<open>{lo,hi}\<close> (\<^verbatim>\<open>?\<close> is \<^verbatim>\<open>{0,1}\<close>, \<^verbatim>\<open>{n}\<close> is \<^verbatim>\<open>{n,n}\<close>), a capturing
  group (numbered or named), a non-capturing group \<^verbatim>\<open>(?:...)\<close>, a back-reference
  (\<^verbatim>\<open>\1\<close>, \<^verbatim>\<open>\k<name>\<close>) and the assertions \<^verbatim>\<open>^\<close> and \<^verbatim>\<open>$\<close>.
  The type parameter is the type of group identifiers.
\<close>

datatype 'g regex =
    Eps
  | Chr cu
  | Class "(cu \<times> cu) list"
  | Seq "'g regex" "'g regex"
  | Alt "'g regex" "'g regex"
  | Rep nat nat "'g regex"
  | Group 'g "'g regex"
  | NonCap "'g regex"
  | Backref 'g
  | Bol
  | Eol

fun seqs :: "'g regex list \<Rightarrow> 'g regex" where
  "seqs [] = Eps"
| "seqs [r] = r"
| "seqs (r # rs) = Seq r (seqs rs)"

fun alts :: "'g regex list \<Rightarrow> 'g regex" where
  "alts [] = Eps"
| "alts [r] = r"
| "alts (r # rs) = Alt r (alts rs)"

definition Opt :: "'g regex \<Rightarrow> 'g regex" where
  "Opt r = Rep 0 1 r"

abbreviation digit :: "'g regex" where
  "digit \<equiv> Class [(cu CHR ''0'', cu CHR ''9'')]"

fun in_class :: "(cu \<times> cu) list \<Rightarrow> cu \<Rightarrow> bool" where
  "in_class [] c = False"
| "in_class ((lo, hi) # rs) c = ((lo \<le> c \<and> c \<le> hi) \<or> in_class rs c)"

text \<open>The capturing groups that occur in a pattern, in order of their left parenthesis.\<close>

fun groups_of :: "'g regex \<Rightarrow> 'g list" where
  "groups_of (Seq a b) = groups_of a @ groups_of b"
| "groups_of (Alt a b) = groups_of a @ groups_of b"
| "groups_of (Rep lo hi r) = groups_of r"
| "groups_of (Group g r) = g # groups_of r"
| "groups_of (NonCap r) = groups_of r"
| "groups_of _ = []"

section \<open>The backtracking matcher\<close>

text \<open>
  The matcher follows the pattern semantics of the language standard. A match state is
  the index reached in the input, the input from that index on, and the captures made so
  far (absent until the group has taken part in the match). A matcher takes a
  continuation and a state; it returns the final state of the first successful path, in
  the priority order of backtracking, or \<open>None\<close> when every path fails.
\<close>

record 'g MatchState =
  endIndex :: nat
  rest :: jsstring
  captures :: "'g \<Rightarrow> jsstring option"

type_synonym 'g cont = "'g MatchState \<Rightarrow> 'g MatchState option"

definition advance :: "nat \<Rightarrow> 'g MatchState \<Rightarrow> 'g MatchState" where
  "advance n s = s\<lparr>endIndex := endIndex s + n, rest := drop n (rest s)\<rparr>"

definition reset :: "'g list \<Rightarrow> 'g MatchState \<Rightarrow> 'g MatchState" where
  "reset gs s = s\<lparr>captures := (\<lambda>g. if g \<in> set gs then None else captures s g)\<rparr>"

definition capture :: "'g \<Rightarrow> 'g MatchState \<Rightarrow> 'g MatchState \<Rightarrow> 'g MatchState" where
  "capture g s y =
     y\<lparr>captures := (captures y)(g \<mapsto> take (endIndex y - endIndex s) (rest s))\<rparr>"

text \<open>
  The quantifier: at most \<open>hi\<close> iterations, at least \<open>lo\<close>. Each iteration starts with
  the captures of the groups inside the quantified atom cleared; once \<open>lo\<close> is
  reached, an iteration that consumes nothing fails; the greedy quantifier tries one
  more iteration before it tries the continuation.
\<close>

fun RepeatMatcher ::
  "('g cont \<Rightarrow> 'g cont) \<Rightarrow> 'g list \<Rightarrow> nat \<Rightarrow> nat \<Rightarrow> 'g cont \<Rightarrow> 'g cont" where
  "RepeatMatcher m gs lo 0 c x = c x"
| "RepeatMatcher m gs lo (Suc hi) c x =
     (let d = (\<lambda>y. if lo = 0 \<and> endIndex y = endIndex x then None
                    else RepeatMatcher m gs (lo - 1) hi c y);
          xr = reset gs x
      in if lo \<noteq> 0 then m d xr
         else (case m d xr of Some z \<Rightarrow> Some z | None \<Rightarrow> c x))"

fun matcher :: "'g regex \<Rightarrow> 'g cont \<Rightarrow> 'g cont" where
  "matcher Eps c x = c x"
| "matcher (Chr a) c x =
     (case rest x of [] \<Rightarrow> None
      | ch # _ \<Rightarrow> if ch = a then c (advance 1 x) else None)"
| "matcher (Class rs) c x =
     (case rest x of [] \<Rightarrow> None
      | ch # _ \<Rightarrow> if in_class rs ch then c (advance 1 x) else None)"
| "matcher (Seq a b) c x = matcher a (matcher b c) x"
| "matcher (Alt a b) c x =
     (case matcher a c x of Some z \<Rightarrow> Some z | None \<Rightarrow> matcher b c x)"
| "matcher (Rep lo hi r) c x =
     RepeatMatcher (\<lambda>d y. matcher r d y) (groups_of r) lo hi c x"
| "matcher (Group g r) c x = matcher r (\<lambda>y. c (capture g x y)) x"
| "matcher (NonCap r) c x = matcher r c x"
| "matcher (Backref g) c x =
     (case captures x g of None \<Rightarrow> c x
      | Some v \<Rightarrow>
          if take (length v) (rest x) = v then c (advance (length v) x) else None)"
| "matcher Bol c x = (if endIndex x = 0 then c x else None)"
| "matcher Eol c x = (if rest x = [] then c x else None)"

text \<open>
  \<^verbatim>\<open>String.prototype.match\<close> with a pattern that has no \<^verbatim>\<open>g\<close> flag: the matcher
  is tried at index 0, then at every later index up to the length of the input, and the
  first success is the result; \<open>None\<close> is JavaScript's \<^verbatim>\<open>null\<close>.
\<close>

record 'g MatchResult =
  index :: nat
  matched :: jsstring
  groups :: "'g \<Rightarrow> jsstring option"

fun exec_from :: "'g regex \<Rightarrow> nat \<Rightarrow> jsstring \<Rightarrow> 'g MatchResult option" where
  "exec_from r i inp =
     (case matcher r Some \<lparr>endIndex = i, rest = inp, captures = (\<lambda>g. None)\<rparr> of
        Some y \<Rightarrow>
          Some \<lparr>index = i, matched = take (endIndex y - i) inp, groups = captures y\<rparr>
      | None \<Rightarrow>
          (case inp of [] \<Rightarrow> None | _ # inp' \<Rightarrow> exec_from r (Suc i) inp'))"

definition js_match :: "jsstring \<Rightarrow> 'g regex \<Rightarrow> 'g MatchResult option" where
  "js_match inp r = exec_from r 0 inp"

section \<open>The two patterns of the source\<close>

text \<open>The minimalist form: three numbered groups, for the three back-references.\<close>

definition regex_iso8601_datetime_minimalist :: "nat regex" where
  "regex_iso8601_datetime_minimalist = seqs
    [Bol,
     Rep 4 4 digit,
     NonCap (alts
       [seqs [Group 1 (Opt (Chr (cu CHR ''-''))), Rep 2 2 digit, Backref 1, Rep 2 2 digit],
        seqs [Group 2 (Opt (Chr (cu CHR ''-''))), Chr (cu CHR ''W''), Rep 2 2 digit,
              Backref 2, Class [(cu CHR ''1'', cu CHR ''7'')]],
        seqs [Opt (Chr (cu CHR ''-'')), Rep 3 3 digit]]),
     Chr (cu CHR ''T''),
     Rep 2 2 digit,
     Opt (NonCap (seqs
       [Group 3 (Opt (Chr (cu CHR '':''))), Rep 2 2 digit,
        Opt (NonCap (seqs
          [Backref 3, Rep 2 2 digit,
           Opt (NonCap (seqs [Chr (cu CHR ''.''), Rep 1 6 digit]))]))])),
     Opt (NonCap (alts
       [Chr (cu CHR ''Z''),
        seqs [Class [(cu CHR ''+'', cu CHR ''+''), (cu CHR ''-'', cu CHR ''-''),
                     (0x2212, 0x2212)],
              Rep 2 2 digit,
              Opt (NonCap (seqs
                [Opt (Chr (cu CHR '':'')), Rep 2 2 digit,
                 Opt (NonCap (seqs [Opt (Chr (cu CHR '':'')), Rep 2 2 digit]))]))]])),
     Eol]"

text \<open>The expanded form: every piece of the syntax is a named group.\<close>

datatype gname =
    date | year | ymd_hyphen | month | day | ywd_hyphen | week | weekday | ordinalday
  | time | hour | hms_colon | minute | second | microsecond
  | tzinfo | tzsign | tzhour | tzminute | tzsecond

definition regex_iso8601_datetime :: "gname regex" where
  "regex_iso8601_datetime = seqs
    [Bol,
     Group date (seqs
       [Group year (Rep 4 4 digit),
        NonCap (alts
          [seqs [Group ymd_hyphen (Opt (Chr (cu CHR ''-''))), Group month (Rep 2 2 digit),
                 Backref ymd_hyphen, Group day (Rep 2 2 digit)],
           seqs [Group ywd_hyphen (Opt (Chr (cu CHR ''-''))), Chr (cu CHR ''W''),
                 Group week (Rep 2 2 digit), Backref ywd_hyphen,
                 Group weekday (Class [(cu CHR ''1'', cu CHR ''7'')])],
           seqs [Opt (Chr (cu CHR ''-'')), Group ordinalday (Rep 3 3 digit)]])]),
     Chr (cu CHR ''T''),
     Group time (seqs
       [Group hour (Rep 2 2 digit),
        Opt (NonCap (seqs
          [Group hms_colon (Opt (Chr (cu CHR '':''))), Group minute (Rep 2 2 digit),
           Opt (NonCap (seqs
             [Backref hms_colon, Group second (Rep 2 2 digit),
              Opt (NonCap (seqs
                [Chr (cu CHR ''.''), Group microsecond (Rep 1 6 digit)]))]))]))]),
     Opt (Group tzinfo (alts
       [Chr (cu CHR ''Z''),
        seqs [Group tzsign (Class [(cu CHR ''+'', cu CHR ''+''), (cu CHR ''-'', cu CHR ''-''),
                                   (0x2212, 0x2212)]),
              Group tzhour (Rep 2 2 digit),
              Opt (NonCap (seqs
                [Opt (Chr (cu CHR '':'')), Group tzminute (Rep 2 2 digit),
                 Opt (NonCap (seqs
                   [Opt (Chr (cu CHR '':'')), Group tzsecond (Rep 2 2 digit)]))]))]])),
     Eol]"

text \<open>
  The source applies a pattern to a string with \<^verbatim>\<open>match\<close>. The two uses are the
  entry points that the specification calls \<open>is_valid\<close> (the minimalist pattern, for
  the validity answer alone) and \<open>decompose\<close> (the expanded pattern, for the groups).
\<close>

definition is_valid :: "jsstring \<Rightarrow> bool" where
  "is_valid inp = (js_match inp regex_iso8601_datetime_minimalist \<noteq> None)"

definition decompose :: "jsstring \<Rightarrow> gname MatchResult option" where
  "decompose inp = js_match inp regex_iso8601_datetime"

section \<open>The matcher as a list of successes\<close>

text \<open>
  The same semantics without continuations: all the states a pattern can reach from a
  state, in the priority order of backtracking. The matcher with continuation \<open>c\<close>
  returns the first of them that \<open>c\<close> accepts (lemma \<open>matcher_results\<close> below).
\<close>

fun first_some :: "('a \<Rightarrow> 'b option) \<Rightarrow> 'a list \<Rightarrow> 'b option" where
  "first_some c [] = None"
| "first_some c (y # ys) = (case c y of Some z \<Rightarrow> Some z | None \<Rightarrow> first_some c ys)"

fun rep_results ::
  "('g MatchState \<Rightarrow> 'g MatchState list) \<Rightarrow> 'g list \<Rightarrow> nat \<Rightarrow> nat \<Rightarrow>
   'g MatchState \<Rightarrow> 'g MatchState list" where
  "rep_results f gs lo 0 x = [x]"
| "rep_results f gs lo (Suc hi) x =
     concat (map (\<lambda>y. if lo = 0 \<and> endIndex y = endIndex x then []
                       else rep_results f gs (lo - 1) hi y) (f (reset gs x)))
     @ (if lo = 0 then [x] else [])"

fun results :: "'g regex \<Rightarrow> 'g MatchState \<Rightarrow> 'g MatchState list" where
  "results Eps x = [x]"
| "results (Chr a) x =
     (case rest x of [] \<Rightarrow> [] | ch # _ \<Rightarrow> if ch = a then [advance 1 x] else [])"
| "results (Class rs) x =
     (case rest x of [] \<Rightarrow> [] | ch # _ \<Rightarrow> if in_class rs ch then [advance 1 x] else [])"
| "results (Seq a b) x = concat (map (\<lambda>y. results b y) (results a x))"
| "results (Alt a b) x = results a x @ results b x"
| "results (Rep lo hi r) x = rep_results (\<lambda>y. results r y) (groups_of r) lo hi x"
| "results (Group g r) x = map (capture g x) (results r x)"
| "results (NonCap r) x = results r x"
| "results (Backref g) x =
     (case captures x g of None \<Rightarrow> [x]
      | Some v \<Rightarrow> if take (length v) (rest x) = v then [advance (length v) x] else [])"
| "results Bol x = (if endIndex x = 0 then [x] else [])"
| "results Eol x = (if rest x = [] then [x] else [])"

definition init :: "nat \<Rightarrow> jsstring \<Rightarrow> 'g MatchState" where
  "init i inp = \<lparr>endIndex = i, rest = inp, captures = (\<lambda>g. None)\<rparr>"

text \<open>From state \<open>x\<close> the match reaches state \<open>y\<close> by consuming the word \<open>w\<close>.\<close>

definition consumes :: "'g MatchState \<Rightarrow> jsstring \<Rightarrow> 'g MatchState \<Rightarrow> bool" where
  "consumes x w y \<longleftrightarrow> rest x = w @ rest y \<and> endIndex y = endIndex x + length w"

definition is_digit :: "cu \<Rightarrow> bool" where
  "is_digit c \<longleftrightarrow> cu CHR ''0'' \<le> c \<and> c \<le> cu CHR ''9''"

definition digits :: "nat \<Rightarrow> jsstring \<Rightarrow> bool" where
  "digits n w \<longleftrightarrow> length w = n \<and> list_all is_digit w"

section \<open>Relating the two patterns\<close>

text \<open>
  Two match states, over different group identifiers, agree when they stand at the same
  place of the same input and every pair of linked groups holds the same capture. A
  pattern simulates another when, from states that agree, the two reach states that
  agree, in the same order.
\<close>

definition crel :: "('g \<times> 'h) list \<Rightarrow> 'g MatchState \<Rightarrow> 'h MatchState \<Rightarrow> bool" where
  "crel L x x' \<longleftrightarrow>
     endIndex x = endIndex x' \<and> rest x = rest x' \<and>
     (\<forall>(g, h) \<in> set L. captures x g = captures x' h)"

definition sim :: "('g \<times> 'h) list \<Rightarrow> 'g regex \<Rightarrow> 'h regex \<Rightarrow> bool" where
  "sim L r r' \<longleftrightarrow>
     (\<forall>x x'. crel L x x' \<longrightarrow> list_all2 (crel L) (results r x) (results r' x'))"

definition linked :: "(gname \<times> nat) list" where
  "linked = [(ymd_hyphen, 1), (ywd_hyphen, 2), (hms_colon, 3)]"

section \<open>What a pattern matches, declaratively\<close>

text \<open>
  \<open>matches r c w c'\<close>: starting with the captures \<open>c\<close>, the pattern \<open>r\<close> can consume
  the word \<open>w\<close> and leave the captures \<open>c'\<close>. The rules follow the matcher case by
  case, without the order of backtracking and without the position in the input (so the
  two assertions consume nothing and always hold). Every state that the matcher reaches
  is described by this relation (lemma \<open>results_matches\<close>), and for a pattern without
  assertions the converse holds too (lemma \<open>results_complete\<close>).
\<close>

type_synonym 'g caps = "'g \<Rightarrow> jsstring option"

definition reset_caps :: "'g list \<Rightarrow> 'g caps \<Rightarrow> 'g caps" where
  "reset_caps gs c = (\<lambda>g. if g \<in> set gs then None else c g)"

inductive matches :: "'g regex \<Rightarrow> 'g caps \<Rightarrow> jsstring \<Rightarrow> 'g caps \<Rightarrow> bool" where
  m_Eps: "matches Eps c [] c"
| m_Chr: "matches (Chr a) c [a] c"
| m_Class: "in_class rs a \<Longrightarrow> matches (Class rs) c [a] c"
| m_Seq: "matches a c w1 c1 \<Longrightarrow> matches b c1 w2 c2 \<Longrightarrow> matches (Seq a b) c (w1 @ w2) c2"
| m_Alt1: "matches a c w c' \<Longrightarrow> matches (Alt a b) c w c'"
| m_Alt2: "matches b c w c' \<Longrightarrow> matches (Alt a b) c w c'"
| m_Rep_done: "hi = 0 \<or> lo = 0 \<Longrightarrow> matches (Rep lo hi r) c [] c"
| m_Rep_step: "matches r (reset_caps (groups_of r) c) w1 c1 \<Longrightarrow> \<not> (lo = 0 \<and> w1 = []) \<Longrightarrow>
     matches (Rep (lo - 1) hi r) c1 w2 c2 \<Longrightarrow> matches (Rep lo (Suc hi) r) c (w1 @ w2) c2"
| m_Group: "matches r c w c' \<Longrightarrow> matches (Group g r) c w (c'(g \<mapsto> w))"
| m_NonCap: "matches r c w c' \<Longrightarrow> matches (NonCap r) c w c'"
| m_Backref: "matches (Backref g) c (case c g of None \<Rightarrow> [] | Some v \<Rightarrow> v) c"
| m_Bol: "matches Bol c [] c"
| m_Eol: "matches Eol c [] c"

declare exec_from.simps [simp del]

text \<open>A pattern that ends with the assertion \<^verbatim>\<open>$\<close>.\<close>

fun ends_eol :: "'g regex \<Rightarrow> bool" where
  "ends_eol Eol = True"
| "ends_eol (Seq a b) = ends_eol b"
| "ends_eol _ = False"

text \<open>
  The three super-groups of the expanded pattern, as patterns of their own; the expanded
  pattern is \<^verbatim>\<open>^\<close>, \<open>re_date\<close>, T, \<open>re_time\<close>, the optional \<open>re_tzinfo\<close> and
  \<^verbatim>\<open>$\<close> in sequence (lemma \<open>regex_parts\<close>).
\<close>

definition re_date :: "gname regex" where
  "re_date = Group date (seqs
       [Group year (Rep 4 4 digit),
        NonCap (alts
          [seqs [Group ymd_hyphen (Opt (Chr (cu CHR ''-''))), Group month (Rep 2 2 digit),
                 Backref ymd_hyphen, Group day (Rep 2 2 digit)],
           seqs [Group ywd_hyphen (Opt (Chr (cu CHR ''-''))), Chr (cu CHR ''W''),
                 Group week (Rep 2 2 digit), Backref ywd_hyphen,
                 Group weekday (Class [(cu CHR ''1'', cu CHR ''7'')])],
           seqs [Opt (Chr (cu CHR ''-'')), Group ordinalday (Rep 3 3 digit)]])])"

definition re_time :: "gname regex" where
  "re_time = Group time (seqs
       [Group hour (Rep 2 2 digit),
        Opt (NonCap (seqs
          [Group hms_colon (Opt (Chr (cu CHR '':''))), Group minute (Rep 2 2 digit),
           Opt (NonCap (seqs
             [Backref hms_colon, Group second (Rep 2 2 digit),
              Opt (NonCap (seqs
                [Chr (cu CHR ''.''), Group microsecond (Rep 1 6 digit)]))]))]))])"

definition re_tzinfo :: "gname regex" where
  "re_tzinfo = Group tzinfo (alts
       [Chr (cu CHR ''Z''),
        seqs [Group tzsign (Class [(cu CHR ''+'', cu CHR ''+''), (cu CHR ''-'', cu CHR ''-''),
                                   (0x2212, 0x2212)]),
              Group tzhour (Rep 2 2 digit),
              Opt (NonCap (seqs
                [Opt (Chr (cu CHR '':'')), Group tzminute (Rep 2 2 digit),
                 Opt (NonCap (seqs
                   [Opt (Chr (cu CHR '':'')), Group tzsecond (Rep 2 2 digit)]))]))]])"

section \<open>The shape of a successful decomposition\<close>

text \<open>
  An optional separator character; the value of each of the three super-groups together
  with the values of the groups inside it, for each of the forms the pattern allows.
\<close>

definition sep :: "char \<Rightarrow> jsstring \<Rightarrow> bool" where
  "sep ch h \<longleftrightarrow> h = [] \<or> h = [cu ch]"

definition date_shape :: "jsstring \<Rightarrow> gname caps \<Rightarrow> bool" where
  "date_shape w G \<longleftrightarrow> G date = Some w \<and> (\<exists>yr. digits 4 yr \<and> G year = Some yr \<and>
     ((\<exists>h mo d. sep CHR ''-'' h \<and> digits 2 mo \<and> digits 2 d \<and> w = yr @ h @ mo @ h @ d \<and>
         G ymd_hyphen = Some h \<and> G month = Some mo \<and> G day = Some d \<and>
         G ywd_hyphen = None \<and> G week = None \<and> G weekday = None \<and> G ordinalday = None)
    \<or> (\<exists>h wk wd. sep CHR ''-'' h \<and> digits 2 wk \<and> cu CHR ''1'' \<le> wd \<and> wd \<le> cu CHR ''7'' \<and>
         w = yr @ h @ str ''W'' @ wk @ h @ [wd] \<and>
         G ywd_hyphen = Some h \<and> G week = Some wk \<and> G weekday = Some [wd] \<and>
         G ymd_hyphen = None \<and> G month = None \<and> G day = None \<and> G ordinalday = None)
    \<or> (\<exists>h od. sep CHR ''-'' h \<and> digits 3 od \<and> w = yr @ h @ od \<and> G ordinalday = Some od \<and>
         G ymd_hyphen = None \<and> G month = None \<and> G day = None \<and>
         G ywd_hyphen = None \<and> G week = None \<and> G weekday = None)))"

definition fraction :: "jsstring \<Rightarrow> bool" where
  "fraction us \<longleftrightarrow> 1 \<le> length us \<and> length us \<le> 6 \<and> list_all is_digit us"

definition time_shape :: "jsstring \<Rightarrow> gname caps \<Rightarrow> bool" where
  "time_shape w G \<longleftrightarrow> G time = Some w \<and> (\<exists>hh. digits 2 hh \<and> G hour = Some hh \<and>
     ((w = hh \<and> G hms_colon = None \<and> G minute = None \<and> G second = None \<and>
         G microsecond = None)
    \<or> (\<exists>s mi. sep CHR '':'' s \<and> digits 2 mi \<and> G hms_colon = Some s \<and> G minute = Some mi \<and>
         ((w = hh @ s @ mi \<and> G second = None \<and> G microsecond = None)
        \<or> (\<exists>ss. digits 2 ss \<and> G second = Some ss \<and>
             ((w = hh @ s @ mi @ s @ ss \<and> G microsecond = None)
            \<or> (\<exists>us. fraction us \<and>
                  G microsecond = Some us \<and>
                  w = hh @ s @ mi @ s @ ss @ str ''.'' @ us)))))))"

definition is_sign :: "cu \<Rightarrow> bool" where
  "is_sign sg \<longleftrightarrow> sg = cu CHR ''+'' \<or> sg = cu CHR ''-'' \<or> sg = 0x2212"

definition tz_shape :: "jsstring \<Rightarrow> gname caps \<Rightarrow> bool" where
  "tz_shape w G \<longleftrightarrow>
     (w = [] \<and> G tzinfo = None \<and> G tzsign = None \<and> G tzhour = None \<and>
        G tzminute = None \<and> G tzsecond = None)
   \<or> (w = str ''Z'' \<and> G tzinfo = Some w \<and> G tzsign = None \<and> G tzhour = None \<and>
        G tzminute = None \<and> G tzsecond = None)
   \<or> (\<exists>sg th. is_sign sg \<and> digits 2 th \<and>
        G tzinfo = Some w \<and> G tzsign = Some [sg] \<and> G tzhour = Some th \<and>
        ((w = sg # th \<and> G tzminute = None \<and> G tzsecond = None)
       \<or> (\<exists>s1 tm. sep CHR '':'' s1 \<and> digits 2 tm \<and> G tzminute = Some tm \<and>
            ((w = sg # th @ s1 @ tm \<and> G tzsecond = None)
           \<or> (\<exists>s2 ts. sep CHR '':'' s2 \<and> digits 2 ts \<and> G tzsecond = Some ts \<and>
                 w = sg # th @ s1 @ tm @ s2 @ ts)))))"

text \<open>A non-empty string whose last code unit satisfies \<open>P\<close>.\<close>

definition ends_with :: "(cu \<Rightarrow> bool) \<Rightarrow> jsstring \<Rightarrow> bool" where
  "ends_with P w \<longleftrightarrow> w \<noteq> [] \<and> P (last w)"

section \<open>The grammar of the specification\<close>

text \<open>
  The grammar as the specification writes it (section 4.1), on strings alone:
  \<^verbatim>\<open>datetime := date "T" time tzinfo?\<close>, with the separator of a calendar date, of a
  week date and of a time each used twice with the same value.
\<close>

definition spec_date :: "jsstring \<Rightarrow> bool" where
  "spec_date w \<longleftrightarrow> (\<exists>yr. digits 4 yr \<and>
     ((\<exists>sep1 mo d. sep CHR ''-'' sep1 \<and> digits 2 mo \<and> digits 2 d \<and>
         w = yr @ sep1 @ mo @ sep1 @ d)
    \<or> (\<exists>sep2 wk wd. sep CHR ''-'' sep2 \<and> digits 2 wk \<and>
         cu CHR ''1'' \<le> wd \<and> wd \<le> cu CHR ''7'' \<and>
         w = yr @ sep2 @ str ''W'' @ wk @ sep2 @ [wd])
    \<or> (\<exists>h od. sep CHR ''-'' h \<and> digits 3 od \<and> w = yr @ h @ od)))"

definition spec_time :: "jsstring \<Rightarrow> bool" where
  "spec_time w \<longleftrightarrow> (\<exists>hh. digits 2 hh \<and>
     (w = hh
    \<or> (\<exists>sepT mi. sep CHR '':'' sepT \<and> digits 2 mi \<and>
         (w = hh @ sepT @ mi
        \<or> (\<exists>ss. digits 2 ss \<and>
             (w = hh @ sepT @ mi @ sepT @ ss
            \<or> (\<exists>us. fraction us \<and> w = hh @ sepT @ mi @ sepT @ ss @ str ''.'' @ us)))))))"

definition spec_tzinfo :: "jsstring \<Rightarrow> bool" where
  "spec_tzinfo w \<longleftrightarrow> w = str ''Z'' \<or>
     (\<exists>sg th. is_sign sg \<and> digits 2 th \<and>
        (w = sg # th
       \<or> (\<exists>s1 tm. sep CHR '':'' s1 \<and> digits 2 tm \<and>
            (w = sg # th @ s1 @ tm
           \<or> (\<exists>s2 ts. sep CHR '':'' s2 \<and> digits 2 ts \<and> w = sg # th @ s1 @ tm @ s2 @ ts)))))"

definition spec_datetime :: "jsstring \<Rightarrow> bool" where
  "spec_datetime inp \<longleftrightarrow>
     (\<exists>dt tm tz. inp = dt @ str ''T'' @ tm @ tz \<and> spec_date dt \<and> spec_time tm \<and>
        (tz = [] \<or> spec_tzinfo tz))"

text \<open>A pattern without the assertions \<^verbatim>\<open>^\<close> and \<^verbatim>\<open>$\<close>.\<close>

fun anchor_free :: "'g regex \<Rightarrow> bool" where
  "anchor_free Bol = False"
| "anchor_free Eol = False"
| "anchor_free (Seq a b) = (anchor_free a \<and> anchor_free b)"
| "anchor_free (Alt a b) = (anchor_free a \<and> anchor_free b)"
| "anchor_free (Rep lo hi r) = anchor_free r"
| "anchor_free (Group g r) = anchor_free r"
| "anchor_free (NonCap r) = anchor_free r"
| "anchor_free _ = True"

text \<open>The characters a time zone designator can begin with.\<close>

definition tz_start :: "cu \<Rightarrow> bool" where
  "tz_start x \<longleftrightarrow> x = cu CHR ''Z'' \<or> is_sign x"

section \<open>The two semantics agree\<close>

lemma first_some_append:
  "first_some c (xs @ ys) = (case first_some c xs of Some z \<Rightarrow> Some z | None \<Rightarrow> first_some c ys)"
  by (induction xs) (auto split: option.splits)

lemma first_some_concat_map:
  "first_some c (concat (map f xs)) = first_some (\<lambda>y. first_some c (f y)) xs"
  by (induction xs) (auto simp: first_some_append split: option.splits)

lemma first_some_map: "first_some c (map f xs) = first_some (\<lambda>y. c (f y)) xs"
  by (induction xs) (auto split: option.splits)

lemma first_some_Some: "first_some Some xs = (case xs of [] \<Rightarrow> None | y # _ \<Rightarrow> Some y)"
  by (cases xs) simp_all

lemma RepeatMatcher_results:
  assumes "\<And>d y. m d y = first_some d (f y)"
  shows "RepeatMatcher m gs lo hi c x = first_some c (rep_results f gs lo hi x)"
proof (induction hi arbitrary: lo x)
  case 0
  show ?case by (simp split: option.splits)
next
  case (Suc hi)
  define d where "d = (\<lambda>y. if lo = 0 \<and> endIndex y = endIndex x then None
                 else RepeatMatcher m gs (lo - 1) hi c y)"
  define e where "e = (\<lambda>y. if lo = 0 \<and> endIndex y = endIndex x then []
                 else rep_results f gs (lo - 1) hi y)"
  have de: "d = (\<lambda>y. first_some c (e y))"
    unfolding d_def e_def by (rule ext) (simp add: Suc.IH)
  have md: "m d (reset gs x) = first_some c (concat (map e (f (reset gs x))))"
    by (simp only: assms de first_some_concat_map)
  have L: "RepeatMatcher m gs lo (Suc hi) c x =
      (if lo \<noteq> 0 then m d (reset gs x)
       else (case m d (reset gs x) of Some z \<Rightarrow> Some z | None \<Rightarrow> c x))"
    by (simp only: RepeatMatcher.simps Let_def d_def)
  have R: "rep_results f gs lo (Suc hi) x =
      concat (map e (f (reset gs x))) @ (if lo = 0 then [x] else [])"
    by (simp only: rep_results.simps e_def)
  show ?case
    unfolding L R md first_some_append
    by (cases "lo = 0") (simp_all split: option.splits)
qed

lemma matcher_results: "matcher r c x = first_some c (results r x)"
proof (induction r arbitrary: c x)
  case (Seq a b)
  have "matcher b c = (\<lambda>y. first_some c (results b y))"
    by (rule ext) (rule Seq.IH(2))
  then show ?case
    by (simp add: Seq.IH(1) first_some_concat_map)
next
  case (Alt a b)
  then show ?case by (simp add: first_some_append split: option.splits)
next
  case (Rep lo hi r)
  show ?case
    by (simp add: RepeatMatcher_results [where f = "\<lambda>y. results r y", OF Rep.IH])
next
  case (Group g r)
  then show ?case by (simp add: first_some_map)
qed (auto split: list.splits option.splits)

lemma exec_from_results:
  "exec_from r i inp =
     (case results r (init i inp) of
        y # _ \<Rightarrow> Some \<lparr>index = i, matched = take (endIndex y - i) inp, groups = captures y\<rparr>
      | [] \<Rightarrow> (case inp of [] \<Rightarrow> None | _ # inp' \<Rightarrow> exec_from r (Suc i) inp'))"
  by (subst exec_from.simps)
     (simp add: matcher_results first_some_Some init_def split: list.splits)

section \<open>Evaluation on a concrete input\<close>

lemma rep_results_numeral:
  "rep_results f gs lo (numeral n) x =
     concat (map (\<lambda>y. if lo = 0 \<and> endIndex y = endIndex x then []
                       else rep_results f gs (lo - 1) (pred_numeral n) y) (f (reset gs x)))
     @ (if lo = 0 then [x] else [])"
  by (simp add: numeral_eq_Suc)

lemmas eval_simps = is_valid_def decompose_def js_match_def
  regex_iso8601_datetime_minimalist_def regex_iso8601_datetime_def
  str_def cu_def Opt_def advance_def reset_def capture_def init_def
  rep_results_numeral exec_from_results

section \<open>The expanded pattern simulates the minimalist pattern\<close>

lemma list_all2_concat_map:
  "list_all2 R xs ys \<Longrightarrow> (\<And>x y. R x y \<Longrightarrow> list_all2 Q (f x) (g y)) \<Longrightarrow>
   list_all2 Q (concat (map f xs)) (concat (map g ys))"
  by (induction rule: list_all2_induct) (auto intro: list_all2_appendI)

lemma simI: "(\<And>x x'. crel L x x' \<Longrightarrow> list_all2 (crel L) (results r x) (results r' x')) \<Longrightarrow> sim L r r'"
  by (simp add: sim_def)

lemma simD: "sim L r r' \<Longrightarrow> crel L x x' \<Longrightarrow> list_all2 (crel L) (results r x) (results r' x')"
  by (simp add: sim_def)

lemma crel_advance: "crel L x x' \<Longrightarrow> crel L (advance n x) (advance n x')"
  by (simp add: crel_def advance_def)

lemma sim_Eps: "sim L Eps Eps"
  by (rule simI) simp

lemma sim_Chr: "sim L (Chr a) (Chr a)"
  by (rule simI) (auto simp: crel_advance split: list.splits, auto simp: crel_def)

lemma sim_Class: "sim L (Class rs) (Class rs)"
  by (rule simI) (auto simp: crel_advance split: list.splits, auto simp: crel_def)

lemma sim_Bol: "sim L Bol Bol"
  by (rule simI) (auto simp: crel_def)

lemma sim_Eol: "sim L Eol Eol"
  by (rule simI) (auto simp: crel_def)

lemma sim_Seq: "sim L a a' \<Longrightarrow> sim L b b' \<Longrightarrow> sim L (Seq a b) (Seq a' b')"
  by (rule simI) (auto intro!: list_all2_concat_map dest: simD)

lemma concat_map_concat_map:
  "concat (map f (concat (map g xs))) = concat (map (\<lambda>x. concat (map f (g x))) xs)"
  by (induction xs) simp_all

lemma results_Seq_assoc: "results (Seq (Seq a b) c) x = results (Seq a (Seq b c)) x"
proof -
  have "results (Seq b c) = (\<lambda>y. concat (map (results c) (results b y)))"
    by (rule ext) simp
  then show ?thesis
    by (simp add: concat_map_concat_map)
qed

lemma sim_assoc_right: "sim L r (Seq (Seq a b) c) \<Longrightarrow> sim L r (Seq a (Seq b c))"
  unfolding sim_def results_Seq_assoc .

lemma sim_Alt: "sim L a a' \<Longrightarrow> sim L b b' \<Longrightarrow> sim L (Alt a b) (Alt a' b')"
  by (rule simI) (auto intro!: list_all2_appendI dest: simD)

lemma sim_NonCap_left: "sim L r r' \<Longrightarrow> sim L (NonCap r) r'"
  by (simp add: sim_def)

lemma sim_NonCap_right: "sim L r r' \<Longrightarrow> sim L r (NonCap r')"
  by (simp add: sim_def)

lemma crel_capture_drop:
  "g \<notin> fst ` set L \<Longrightarrow> crel L t t' \<Longrightarrow> crel L (capture g x t) t'"
  by (force simp: crel_def capture_def)

lemma sim_Group_drop: "g \<notin> fst ` set L \<Longrightarrow> sim L r r' \<Longrightarrow> sim L (Group g r) r'"
  by (rule simI)
     (auto simp: list_all2_map1 intro: crel_capture_drop elim!: list_all2_mono dest!: simD)

lemma crel_capture_link:
  assumes "(g, h) \<in> set L" "\<forall>(g', h') \<in> set L. (g' = g) = (h' = h)"
    and "crel L x x'" "crel L t t'"
  shows "crel L (capture g x t) (capture h x' t')"
  using assms by (fastforce simp: crel_def capture_def)

lemma sim_Group_link:
  assumes "(g, h) \<in> set L" "\<forall>(g', h') \<in> set L. (g' = g) = (h' = h)" "sim L r r'"
  shows "sim L (Group g r) (Group h r')"
proof (rule simI)
  fix x x' assume x: "crel L x x'"
  have "list_all2 (crel L) (results r x) (results r' x')"
    using assms(3) x by (rule simD)
  then have "list_all2 (\<lambda>t t'. crel L (capture g x t) (capture h x' t')) (results r x) (results r' x')"
    by (rule list_all2_mono) (rule crel_capture_link [OF assms(1,2) x])
  then show "list_all2 (crel L) (results (Group g r) x) (results (Group h r') x')"
    by (simp add: list_all2_map1 list_all2_map2)
qed

lemma sim_Backref:
  assumes "(g, h) \<in> set L"
  shows "sim L (Backref g) (Backref h)"
proof (rule simI)
  fix x x' assume x: "crel L x x'"
  have c: "captures x g = captures x' h" and r: "rest x = rest x'"
    using x assms by (auto simp: crel_def)
  show "list_all2 (crel L) (results (Backref g) x) (results (Backref h) x')"
    using x by (simp add: c r crel_advance split: option.splits)
qed

lemma crel_reset:
  "\<forall>(g, h) \<in> set L. (g \<in> set gs) = (h \<in> set gs') \<Longrightarrow> crel L x x' \<Longrightarrow>
   crel L (reset gs x) (reset gs' x')"
  by (fastforce simp: crel_def reset_def)

lemma rep_results_sim:
  assumes f: "\<And>x x'. crel L x x' \<Longrightarrow> list_all2 (crel L) (f x) (f' x')"
    and gs: "\<forall>(g, h) \<in> set L. (g \<in> set gs) = (h \<in> set gs')"
  shows "crel L x x' \<Longrightarrow>
    list_all2 (crel L) (rep_results f gs lo hi x) (rep_results f' gs' lo hi x')"
proof (induction hi arbitrary: lo x x')
  case 0
  then show ?case by simp
next
  case (Suc hi)
  have e: "endIndex x = endIndex x'"
    using Suc.prems by (simp add: crel_def)
  have body: "list_all2 (crel L)
      (if lo = 0 \<and> endIndex y = endIndex x then [] else rep_results f gs (lo - 1) hi y)
      (if lo = 0 \<and> endIndex y' = endIndex x' then [] else rep_results f' gs' (lo - 1) hi y')"
    if "crel L y y'" for y y'
  proof -
    have "endIndex y = endIndex y'" using that by (simp add: crel_def)
    then show ?thesis using e Suc.IH [OF that] by simp
  qed
  have "list_all2 (crel L) (f (reset gs x)) (f' (reset gs' x'))"
    by (rule f) (rule crel_reset [OF gs Suc.prems])
  then have "list_all2 (crel L)
      (concat (map (\<lambda>y. if lo = 0 \<and> endIndex y = endIndex x then []
                         else rep_results f gs (lo - 1) hi y) (f (reset gs x))))
      (concat (map (\<lambda>y. if lo = 0 \<and> endIndex y = endIndex x' then []
                         else rep_results f' gs' (lo - 1) hi y) (f' (reset gs' x'))))"
    by (rule list_all2_concat_map) (rule body)
  then show ?case
    using Suc.prems by (auto intro!: list_all2_appendI)
qed

lemma sim_Rep:
  assumes "\<forall>(g, h) \<in> set L. (g \<in> set (groups_of r)) = (h \<in> set (groups_of r'))"
    and "sim L r r'"
  shows "sim L (Rep lo hi r) (Rep lo hi r')"
  by (rule simI) (simp add: rep_results_sim [OF simD [OF assms(2)] assms(1)])

lemmas sim_intros = sim_Eps sim_Chr sim_Class sim_Bol sim_Eol sim_Seq sim_Alt sim_Rep
  sim_Backref sim_Group_link sim_Group_drop sim_NonCap_left sim_NonCap_right

lemma sim_regex:
  "sim linked regex_iso8601_datetime regex_iso8601_datetime_minimalist"
  unfolding regex_iso8601_datetime_def regex_iso8601_datetime_minimalist_def
    seqs.simps alts.simps Opt_def
  apply (rule sim_Seq, rule sim_Bol)
  apply (rule sim_assoc_right)
  apply (rule sim_Seq)
   apply (intro sim_intros; simp add: linked_def)
  apply (rule sim_Seq, rule sim_Chr)
  apply (rule sim_assoc_right)
  apply (intro sim_intros; simp add: linked_def)
  done

lemma exec_from_sim:
  assumes "sim L r r'"
  shows "(exec_from r i inp = None) = (exec_from r' i inp = None)"
proof (induction inp arbitrary: i)
  case Nil
  have "list_all2 (crel L) (results r (init i [])) (results r' (init i []))"
    by (rule simD [OF assms]) (simp add: crel_def init_def)
  then show ?case
    by (subst (1 2) exec_from_results) (auto split: list.splits)
next
  case (Cons a inp)
  have "list_all2 (crel L) (results r (init i (a # inp))) (results r' (init i (a # inp)))"
    by (rule simD [OF assms]) (simp add: crel_def init_def)
  then show ?case
    using Cons.IH [of "Suc i"]
    by (subst (1 2) exec_from_results) (auto split: list.splits)
qed

lemma is_valid_decompose: "is_valid inp = (decompose inp \<noteq> None)"
  using exec_from_sim [OF sim_regex, of 0 inp]
  by (simp add: is_valid_def decompose_def js_match_def)

text \<open>
  C1. The fast-check pattern and the decomposing pattern accept exactly the same
  strings: for every input, \<^verbatim>\<open>match\<close> with the minimalist pattern gives a result
  if and only if \<^verbatim>\<open>match\<close> with the expanded pattern does.
\<close>

theorem grammars_equivalent:
  "(js_match inp regex_iso8601_datetime_minimalist \<noteq> None) =
   (js_match inp regex_iso8601_datetime \<noteq> None)"
  using is_valid_decompose [of inp] by (simp only: is_valid_def decompose_def)

section \<open>Every state the matcher reaches is described by the relation\<close>

inductive_simps matches_Eps: "matches Eps c w c'"

inductive_simps matches_Chr: "matches (Chr a) c w c'"

inductive_simps matches_Class: "matches (Class rs) c w c'"

inductive_simps matches_Seq: "matches (Seq a b) c w c'"

inductive_simps matches_Alt: "matches (Alt a b) c w c'"

inductive_simps matches_Rep_0: "matches (Rep lo 0 r) c w c'"

inductive_simps matches_Rep_Suc: "matches (Rep lo (Suc hi) r) c w c'"

inductive_simps matches_Group: "matches (Group g r) c w c'"

inductive_simps matches_NonCap: "matches (NonCap r) c w c'"

inductive_simps matches_Backref: "matches (Backref g) c w c'"

inductive_simps matches_Bol: "matches Bol c w c'"

inductive_simps matches_Eol: "matches Eol c w c'"

lemma consumes_refl: "consumes x [] x"
  by (simp add: consumes_def)

lemma consumes_trans: "consumes x w1 t \<Longrightarrow> consumes t w2 y \<Longrightarrow> consumes x (w1 @ w2) y"
  by (simp add: consumes_def)

lemma consumes_reset: "consumes (reset gs x) w y = consumes x w y"
  by (simp add: consumes_def reset_def)

lemma captures_reset: "captures (reset gs x) = reset_caps gs (captures x)"
  by (simp add: reset_def reset_caps_def)

lemma consumes_capture:
  "consumes x w t \<Longrightarrow> consumes x w (capture g x t) \<and> captures (capture g x t) = (captures t)(g \<mapsto> w)"
  by (simp add: consumes_def capture_def)

lemma consumes_advance_1: "rest x = ch # cs \<Longrightarrow> consumes x [ch] (advance 1 x)"
  by (simp add: consumes_def advance_def)

lemma rep_results_matches:
  assumes f: "\<And>x y. y \<in> set (results r x) \<Longrightarrow>
                 \<exists>w. consumes x w y \<and> matches r (captures x) w (captures y)"
  shows "y \<in> set (rep_results (\<lambda>y. results r y) (groups_of r) lo hi x) \<Longrightarrow>
         \<exists>w. consumes x w y \<and> matches (Rep lo hi r) (captures x) w (captures y)"
proof (induction hi arbitrary: lo x)
  case 0
  then show ?case by (auto intro!: exI [of _ "[]"] simp: consumes_refl intro: m_Rep_done)
next
  case (Suc hi)
  from Suc.prems consider
      (stop) "lo = 0" "y = x"
    | (iter) t where "t \<in> set (results r (reset (groups_of r) x))"
        "\<not> (lo = 0 \<and> endIndex t = endIndex x)"
        "y \<in> set (rep_results (\<lambda>y. results r y) (groups_of r) (lo - 1) hi t)"
    by (auto split: if_splits)
  then show ?case
  proof cases
    case stop
    then show ?thesis by (auto intro!: exI [of _ "[]"] simp: consumes_refl intro: m_Rep_done)
  next
    case iter
    from f [OF iter(1)] obtain w1 where
      w1: "consumes x w1 t" "matches r (reset_caps (groups_of r) (captures x)) w1 (captures t)"
      by (auto simp: consumes_reset captures_reset)
    from Suc.IH [OF iter(3)] obtain w2 where
      w2: "consumes t w2 y" "matches (Rep (lo - 1) hi r) (captures t) w2 (captures y)"
      by auto
    have "\<not> (lo = 0 \<and> w1 = [])"
      using iter(2) w1(1) by (auto simp: consumes_def)
    then have "matches (Rep lo (Suc hi) r) (captures x) (w1 @ w2) (captures y)"
      using w1(2) w2(2) by (auto intro: m_Rep_step)
    then show ?thesis
      using consumes_trans [OF w1(1) w2(1)] by blast
  qed
qed

lemma results_matches:
  "y \<in> set (results r x) \<Longrightarrow> \<exists>w. consumes x w y \<and> matches r (captures x) w (captures y)"
proof (induction r arbitrary: x y)
  case Eps
  then show ?case by (auto intro!: exI [of _ "[]"] simp: consumes_refl intro: matches.intros)
next
  case (Chr a)
  then obtain cs where "rest x = a # cs" "y = advance 1 x"
    by (cases "rest x") (auto split: if_splits)
  then show ?case
    using consumes_advance_1 [of x a cs] m_Chr [of a "captures x"]
    by (auto simp: advance_def)
next
  case (Class rs)
  then obtain ch cs where "rest x = ch # cs" "in_class rs ch" "y = advance 1 x"
    by (cases "rest x") (auto split: if_splits)
  then show ?case
    using consumes_advance_1 [of x ch cs] m_Class [of rs ch "captures x"]
    by (auto simp: advance_def)
next
  case (Seq a b)
  from Seq.prems obtain t where t: "t \<in> set (results a x)" "y \<in> set (results b t)"
    by auto
  from Seq.IH(1) [OF t(1)] Seq.IH(2) [OF t(2)] show ?case
    by (blast intro: consumes_trans m_Seq)
next
  case (Alt a b)
  from Alt.prems have "y \<in> set (results a x) \<or> y \<in> set (results b x)"
    by simp
  then show ?case
    using Alt.IH(1) [of y x] Alt.IH(2) [of y x] by (blast intro: m_Alt1 m_Alt2)
next
  case (Rep lo hi r)
  show ?case
    by (rule rep_results_matches [OF Rep.IH]) (use Rep.prems in simp_all)
next
  case (Group g r)
  from Group.prems obtain t where t: "t \<in> set (results r x)" "y = capture g x t"
    by auto
  from Group.IH [OF t(1)] obtain w where
    w: "consumes x w t" "matches r (captures x) w (captures t)"
    by auto
  have "consumes x w y" "captures y = (captures t)(g \<mapsto> w)"
    using consumes_capture [OF w(1), of g] t(2) by simp_all
  then have "consumes x w y \<and> matches (Group g r) (captures x) w (captures y)"
    using m_Group [OF w(2), of g] by simp
  then show ?case ..
next
  case (NonCap r)
  from NonCap.prems have "y \<in> set (results r x)"
    by simp
  from NonCap.IH [OF this] show ?case
    by (blast intro: m_NonCap)
next
  case (Backref g)
  show ?case
  proof (cases "captures x g")
    case None
    with Backref have "y = x" by simp
    then have "consumes x [] y \<and> matches (Backref g) (captures x) [] (captures y)"
      using m_Backref [of g "captures x"] None by (simp add: consumes_refl)
    then show ?thesis ..
  next
    case (Some v)
    with Backref have v: "take (length v) (rest x) = v" "y = advance (length v) x"
      by (auto split: if_splits)
    have "rest x = v @ drop (length v) (rest x)"
      using append_take_drop_id [of "length v" "rest x"] v(1) by simp
    then have "consumes x v y" "captures y = captures x"
      using v(2) by (simp_all add: consumes_def advance_def)
    then have "consumes x v y \<and> matches (Backref g) (captures x) v (captures y)"
      using m_Backref [of g "captures x"] Some by simp
    then show ?thesis ..
  qed
next
  case Bol
  then show ?case
    by (auto intro!: exI [of _ "[]"] simp: consumes_refl split: if_splits intro: matches.intros)
next
  case Eol
  then show ?case
    by (auto intro!: exI [of _ "[]"] simp: consumes_refl split: if_splits intro: matches.intros)
qed

lemma matches_frame:
  "matches r c w c' \<Longrightarrow> g \<notin> set (groups_of r) \<Longrightarrow> c' g = c g"
  by (induction rule: matches.induct) (auto simp: reset_caps_def)

section \<open>An anchored match is a match of the whole input\<close>

lemma regex_parts:
  "regex_iso8601_datetime =
     Seq Bol (Seq re_date (Seq (Chr (cu CHR ''T'')) (Seq re_time (Seq (Opt re_tzinfo) Eol))))"
  by (simp add: regex_iso8601_datetime_def re_date_def re_time_def re_tzinfo_def)

lemma reset_caps_Nil: "reset_caps [] c = c"
  by (simp add: reset_caps_def)

lemma matches_Rep_Class:
  "matches (Rep lo hi (Class rs)) c w c' \<Longrightarrow>
   c' = c \<and> length w \<le> hi \<and> (lo \<le> hi \<longrightarrow> lo \<le> length w) \<and> list_all (in_class rs) w"
proof (induction hi arbitrary: lo c w)
  case 0
  then show ?case by (simp add: matches_Rep_0)
next
  case (Suc hi)
  from Suc.prems consider
      (stop) "w = []" "c' = c" "lo = 0"
    | (iter) w1 c1 w2 where "w = w1 @ w2" "matches (Class rs) c w1 c1"
        "matches (Rep (lo - 1) hi (Class rs)) c1 w2 c'"
    by (auto simp: matches_Rep_Suc reset_caps_Nil)
  then show ?case
  proof cases
    case stop
    then show ?thesis by simp
  next
    case iter
    from iter(2) obtain a where a: "w1 = [a]" "in_class rs a" "c1 = c"
      by (auto simp: matches_Class)
    from Suc.IH [OF iter(3)] show ?thesis
      using iter(1) a by auto
  qed
qed

lemma in_class_digit: "in_class [(cu CHR ''0'', cu CHR ''9'')] = is_digit"
  by (rule ext) (simp add: is_digit_def)

lemma matches_digits:
  "matches (Rep n n digit) c w c' \<Longrightarrow> c' = c \<and> digits n w"
  by (drule matches_Rep_Class) (simp add: digits_def in_class_digit)

lemma matches_Opt:
  "matches (Opt r) c w c' =
     ((w = [] \<and> c' = c) \<or> (w \<noteq> [] \<and> matches r (reset_caps (groups_of r) c) w c'))"
  by (auto simp: Opt_def matches_Rep_Suc matches_Rep_0)

lemma matches_Opt_Chr:
  "matches (Opt (Chr a)) c w c' = ((w = [] \<or> w = [a]) \<and> c' = c)"
  by (auto simp: matches_Opt matches_Chr reset_caps_Nil)

lemma ends_eol_rest: "ends_eol r \<Longrightarrow> y \<in> set (results r x) \<Longrightarrow> rest y = []"
  by (induction r arbitrary: x y rule: ends_eol.induct) (auto split: if_splits)

lemma exec_from_Bol:
  "exec_from (Seq Bol r) i inp = Some m \<Longrightarrow>
   i = 0 \<and> (\<exists>y \<in> set (results (Seq Bol r) (init 0 inp)).
     m = \<lparr>index = 0, matched = take (endIndex y) inp, groups = captures y\<rparr>)"
proof (induction inp arbitrary: i)
  case Nil
  then show ?case
    by (subst (asm) exec_from_results) (auto simp: init_def split: list.splits if_splits)
next
  case (Cons a inp)
  show ?case
  proof (cases "results (Seq Bol r) (init i (a # inp))")
    case Nil
    then have "exec_from (Seq Bol r) i (a # inp) = exec_from (Seq Bol r) (Suc i) inp"
      by (subst exec_from_results) simp
    with Cons.prems Cons.IH [of "Suc i"] show ?thesis by simp
  next
    case (Cons y ys)
    then have i: "i = 0"
      by (auto simp: init_def split: if_splits)
    from Cons have "exec_from (Seq Bol r) i (a # inp) =
        Some \<lparr>index = i, matched = take (endIndex y - i) (a # inp), groups = captures y\<rparr>"
      by (subst exec_from_results) simp
    with Cons.prems have "m = \<lparr>index = i, matched = take (endIndex y - i) (a # inp), groups = captures y\<rparr>"
      by simp
    moreover have "y \<in> set (results (Seq Bol r) (init 0 (a # inp)))"
      using Cons i by simp
    ultimately show ?thesis using i by auto
  qed
qed

lemma js_match_anchored:
  assumes "js_match inp (Seq Bol r) = Some m" "ends_eol r"
  shows "index m = 0 \<and> matched m = inp \<and> matches (Seq Bol r) (\<lambda>g. None) inp (groups m)"
proof -
  from assms(1) obtain y where y: "y \<in> set (results (Seq Bol r) (init 0 inp))"
    and m: "m = \<lparr>index = 0, matched = take (endIndex y) inp, groups = captures y\<rparr>"
    unfolding js_match_def by (blast dest: exec_from_Bol)
  from y have "rest y = []"
    using assms(2) by (auto dest: ends_eol_rest split: if_splits)
  moreover from results_matches [OF y] obtain w where
    w: "consumes (init 0 inp) w y" "matches (Seq Bol r) (\<lambda>g. None) w (captures y)"
    by (auto simp: init_def)
  ultimately have "w = inp" "endIndex y = length inp"
    by (simp_all add: consumes_def init_def)
  with w(2) m show ?thesis by simp
qed

lemma decompose_parts:
  assumes "decompose inp = Some m"
  shows "index m = 0 \<and> matched m = inp \<and>
    (\<exists>dt c1 tm c2 tz. inp = dt @ str ''T'' @ tm @ tz \<and>
       matches re_date (\<lambda>g. None) dt c1 \<and> matches re_time c1 tm c2 \<and>
       matches (Opt re_tzinfo) c2 tz (groups m))"
proof -
  have "index m = 0 \<and> matched m = inp \<and> matches regex_iso8601_datetime (\<lambda>g. None) inp (groups m)"
    using assms unfolding decompose_def regex_parts
    by (rule js_match_anchored) simp
  then show ?thesis
    by (clarsimp simp: regex_parts matches_Seq matches_Bol matches_Chr matches_Eol str_def)
       blast
qed

section \<open>The groups of a successful decomposition\<close>

lemma groups_of_Opt: "groups_of (Opt r) = groups_of r"
  by (simp add: Opt_def)

lemmas matches_simps = groups_of_Opt matches_Group matches_Seq matches_NonCap matches_Alt
  matches_Opt matches_Opt_Chr matches_Backref matches_Chr matches_Class matches_Eps

lemma matches_re_date:
  "matches re_date (\<lambda>g. None) w c' \<Longrightarrow> date_shape w c'"
  unfolding re_date_def date_shape_def seqs.simps alts.simps
  by (auto simp: matches_simps reset_caps_def sep_def str_def dest!: matches_digits)

lemma matches_fraction:
  "matches (Rep (Suc 0) 6 digit) c w c' \<Longrightarrow> c' = c \<and> fraction w"
  by (drule matches_Rep_Class) (simp add: in_class_digit fraction_def)

lemma in_class_sign:
  "in_class [(cu CHR ''+'', cu CHR ''+''), (cu CHR ''-'', cu CHR ''-''), (0x2212, 0x2212)] =
   is_sign"
  by (rule ext) (auto simp: is_sign_def)

lemma matches_Opt_Chr_sep:
  "matches (Opt (Chr (cu ch))) c w c' = (sep ch w \<and> c' = c)"
  by (auto simp: matches_Opt_Chr sep_def)

lemma matches_Opt_NonCap:
  "matches (Opt (NonCap r)) c w c' =
     ((w = [] \<and> c' = c) \<or> (w \<noteq> [] \<and> matches r (reset_caps (groups_of r) c) w c'))"
  by (simp add: matches_Opt matches_NonCap)

lemmas matches_simps2 = groups_of_Opt matches_Group matches_Seq matches_NonCap matches_Alt
  matches_Opt_NonCap matches_Opt_Chr_sep matches_Backref matches_Chr matches_Class

lemma matches_re_time:
  "matches re_time c w c' \<Longrightarrow> c hms_colon = None \<Longrightarrow> c minute = None \<Longrightarrow>
   c second = None \<Longrightarrow> c microsecond = None \<Longrightarrow> time_shape w c'"
  unfolding re_time_def time_shape_def seqs.simps alts.simps
  by (auto simp: matches_simps reset_caps_def sep_def str_def
      dest!: matches_digits matches_fraction)

lemma tz_shape_Z:
  "G tzinfo = Some (str ''Z'') \<Longrightarrow> G tzsign = None \<Longrightarrow> G tzhour = None \<Longrightarrow>
   G tzminute = None \<Longrightarrow> G tzsecond = None \<Longrightarrow> tz_shape (str ''Z'') G"
  unfolding tz_shape_def by blast

lemma tz_shape_h:
  "is_sign sg \<Longrightarrow> digits 2 th \<Longrightarrow> G tzinfo = Some (sg # th) \<Longrightarrow> G tzsign = Some [sg] \<Longrightarrow>
   G tzhour = Some th \<Longrightarrow> G tzminute = None \<Longrightarrow> G tzsecond = None \<Longrightarrow>
   tz_shape (sg # th) G"
  unfolding tz_shape_def by blast

lemma tz_shape_hm:
  "is_sign sg \<Longrightarrow> digits 2 th \<Longrightarrow> sep CHR '':'' s1 \<Longrightarrow> digits 2 tm \<Longrightarrow>
   G tzinfo = Some (sg # th @ s1 @ tm) \<Longrightarrow> G tzsign = Some [sg] \<Longrightarrow>
   G tzhour = Some th \<Longrightarrow> G tzminute = Some tm \<Longrightarrow> G tzsecond = None \<Longrightarrow>
   tz_shape (sg # th @ s1 @ tm) G"
  unfolding tz_shape_def by blast

lemma tz_shape_hms:
  "is_sign sg \<Longrightarrow> digits 2 th \<Longrightarrow> sep CHR '':'' s1 \<Longrightarrow> digits 2 tm \<Longrightarrow>
   sep CHR '':'' s2 \<Longrightarrow> digits 2 ts \<Longrightarrow>
   G tzinfo = Some (sg # th @ s1 @ tm @ s2 @ ts) \<Longrightarrow> G tzsign = Some [sg] \<Longrightarrow>
   G tzhour = Some th \<Longrightarrow> G tzminute = Some tm \<Longrightarrow> G tzsecond = Some ts \<Longrightarrow>
   tz_shape (sg # th @ s1 @ tm @ s2 @ ts) G"
  unfolding tz_shape_def by blast

lemma matches_re_tzinfo:
  "matches re_tzinfo c w c' \<Longrightarrow> c tzsign = None \<Longrightarrow>
   c tzhour = None \<Longrightarrow> c tzminute = None \<Longrightarrow> c tzsecond = None \<Longrightarrow> tz_shape w c'"
  unfolding re_tzinfo_def seqs.simps alts.simps
  apply (clarsimp simp: matches_simps2 reset_caps_def str_def in_class_sign
      simp del: in_class.simps dest!: matches_digits)
  apply (elim disjE exE conjE)
     apply (clarsimp simp: reset_caps_def str_def dest!: matches_digits,
       (rule tz_shape_Z [unfolded str_def, simplified] tz_shape_h tz_shape_hm tz_shape_hms;
        simp))+
  done

lemma groups_of_re_date:
  "groups_of re_date =
     [date, year, ymd_hyphen, month, day, ywd_hyphen, week, weekday, ordinalday]"
  by (simp add: re_date_def groups_of_Opt)

lemma groups_of_re_time:
  "groups_of re_time = [time, hour, hms_colon, minute, second, microsecond]"
  by (simp add: re_time_def groups_of_Opt)

lemma groups_of_re_tzinfo:
  "groups_of re_tzinfo = [tzinfo, tzsign, tzhour, tzminute, tzsecond]"
  by (simp add: re_tzinfo_def groups_of_Opt)

lemma date_shape_cong:
  "date_shape w c \<Longrightarrow> \<forall>g \<in> set (groups_of re_date). c' g = c g \<Longrightarrow> date_shape w c'"
  by (simp add: date_shape_def groups_of_re_date)

lemma time_shape_cong:
  "time_shape w c \<Longrightarrow> \<forall>g \<in> set (groups_of re_time). c' g = c g \<Longrightarrow> time_shape w c'"
  by (simp add: time_shape_def groups_of_re_time)

lemma tz_shape_Nil:
  "G tzinfo = None \<Longrightarrow> G tzsign = None \<Longrightarrow> G tzhour = None \<Longrightarrow>
   G tzminute = None \<Longrightarrow> G tzsecond = None \<Longrightarrow> tz_shape [] G"
  by (simp add: tz_shape_def)

lemma decompose_shape:
  assumes "decompose inp = Some m"
  shows "index m = 0 \<and> matched m = inp \<and>
    (\<exists>dt tm tz. inp = dt @ str ''T'' @ tm @ tz \<and>
       date_shape dt (groups m) \<and> time_shape tm (groups m) \<and> tz_shape tz (groups m))"
proof -
  from decompose_parts [OF assms] obtain dt c1 tm c2 tz where
    im: "index m = 0" "matched m = inp" and inp: "inp = dt @ str ''T'' @ tm @ tz" and
    D: "matches re_date (\<lambda>g. None) dt c1" and T: "matches re_time c1 tm c2" and
    Z: "matches (Opt re_tzinfo) c2 tz (groups m)"
    by blast
  have f1: "c1 g = None" if "g \<notin> set (groups_of re_date)" for g
    using matches_frame [OF D that] .
  have f2: "c2 g = c1 g" if "g \<notin> set (groups_of re_time)" for g
    using matches_frame [OF T that] .
  have f3: "groups m g = c2 g" if "g \<notin> set (groups_of re_tzinfo)" for g
    using matches_frame [OF Z] that by (simp add: groups_of_Opt)
  have d1: "date_shape dt c1"
    using D by (rule matches_re_date)
  have t2: "time_shape tm c2"
    using T by (rule matches_re_time) (simp_all add: f1 groups_of_re_date)
  have c2z: "c2 g = None" if "g \<in> set (groups_of re_tzinfo)" for g
    using that f1 [of g] f2 [of g]
    by (auto simp: groups_of_re_date groups_of_re_time groups_of_re_tzinfo)
  have z: "tz_shape tz (groups m)"
  proof (cases "tz = []")
    case True
    with Z have "groups m = c2"
      by (simp add: matches_Opt)
    with True c2z show ?thesis
      by (simp add: tz_shape_Nil groups_of_re_tzinfo)
  next
    case False
    with Z have "matches re_tzinfo (reset_caps (groups_of re_tzinfo) c2) tz (groups m)"
      by (simp add: matches_Opt)
    then show ?thesis
      by (rule matches_re_tzinfo) (simp_all add: reset_caps_def groups_of_re_tzinfo)
  qed
  have d: "date_shape dt (groups m)"
    using d1 by (rule date_shape_cong)
      (simp add: f2 f3 groups_of_re_date groups_of_re_time groups_of_re_tzinfo)
  have t: "time_shape tm (groups m)"
    using t2 by (rule time_shape_cong)
      (simp add: f3 groups_of_re_time groups_of_re_tzinfo)
  from im inp d t z show ?thesis by blast
qed

lemma date_shape_date: "date_shape w G \<Longrightarrow> G date = Some w"
  by (simp add: date_shape_def)

lemma time_shape_time: "time_shape w G \<Longrightarrow> G time = Some w"
  by (simp add: time_shape_def)

lemma tz_shape_tzinfo: "tz_shape w G \<Longrightarrow> (case G tzinfo of None \<Rightarrow> [] | Some tz \<Rightarrow> tz) = w"
  by (auto simp: tz_shape_def)

lemma date_shape_forms:
  "date_shape w G \<Longrightarrow>
   (G month \<noteq> None \<and> G day \<noteq> None \<and> G week = None \<and> G weekday = None \<and>
      G ordinalday = None) \<or>
   (G week \<noteq> None \<and> G weekday \<noteq> None \<and> G month = None \<and> G day = None \<and>
      G ordinalday = None) \<or>
   (G ordinalday \<noteq> None \<and> G month = None \<and> G day = None \<and> G week = None \<and>
      G weekday = None)"
  unfolding date_shape_def by (elim conjE exE disjE) simp_all

text \<open>
  C2. Whenever the decomposing match succeeds, exactly one of the three date forms is
  populated: month and day (calendar), or week and weekday (week), or ordinalday
  (ordinal); the groups of the other two forms are absent.
\<close>

theorem one_date_form:
  assumes "decompose inp = Some m"
  shows "(groups m month \<noteq> None \<and> groups m day \<noteq> None \<and> groups m week = None \<and>
            groups m weekday = None \<and> groups m ordinalday = None) \<or>
         (groups m week \<noteq> None \<and> groups m weekday \<noteq> None \<and> groups m month = None \<and>
            groups m day = None \<and> groups m ordinalday = None) \<or>
         (groups m ordinalday \<noteq> None \<and> groups m month = None \<and> groups m day = None \<and>
            groups m week = None \<and> groups m weekday = None)"
proof -
  from decompose_shape [OF assms] obtain dt where "date_shape dt (groups m)"
    by blast
  then show ?thesis
    by (rule date_shape_forms)
qed

theorem one_date_form_witness:
  "\<exists>m. decompose (str ''2020-W01-2T12:34:56+12:34'') = Some m \<and>
       groups m week = Some (str ''01'') \<and> groups m weekday = Some (str ''2'') \<and>
       groups m month = None \<and> groups m day = None \<and> groups m ordinalday = None"
proof -
  have "\<exists>m. decompose (str ''2020-W01-2T12:34:56+12:34'') = Some m \<and>
       groups m week = Some (str ''01'') \<and> groups m weekday = Some (str ''2'')"
    by (simp add: eval_simps)
  then obtain m where m: "decompose (str ''2020-W01-2T12:34:56+12:34'') = Some m"
    "groups m week = Some (str ''01'')" "groups m weekday = Some (str ''2'')"
    by blast
  from one_date_form [OF m(1)] m show ?thesis
    by auto
qed

text \<open>
  C10. Whenever the decomposing match succeeds, the three super-groups partition the
  input: the \<open>date\<close> capture, the letter T, the \<open>time\<close> capture and the \<open>tzinfo\<close>
  capture (nothing when it is absent), one after the other, are the input.
\<close>

theorem supergroups_partition:
  assumes "decompose inp = Some m"
  shows "\<exists>dt tm. groups m date = Some dt \<and> groups m time = Some tm \<and>
    inp = dt @ str ''T'' @ tm @ (case groups m tzinfo of None \<Rightarrow> [] | Some tz \<Rightarrow> tz)"
proof -
  from decompose_shape [OF assms] obtain dt tm tz where
    "inp = dt @ str ''T'' @ tm @ tz" "date_shape dt (groups m)"
    "time_shape tm (groups m)" "tz_shape tz (groups m)"
    by blast
  then show ?thesis
    by (simp add: date_shape_date time_shape_time tz_shape_tzinfo)
qed

theorem supergroups_partition_witness:
  "\<exists>m dt tm. decompose (str ''2020-01-02T12:34:56+12:34'') = Some m \<and>
     groups m date = Some dt \<and> groups m time = Some tm \<and>
     groups m tzinfo = Some (str ''+12:34'') \<and>
     str ''2020-01-02T12:34:56+12:34'' = dt @ str ''T'' @ tm @ str ''+12:34''"
proof -
  have "\<exists>m. decompose (str ''2020-01-02T12:34:56+12:34'') = Some m \<and>
     groups m tzinfo = Some (str ''+12:34'')"
    by (simp add: eval_simps)
  then obtain m where m: "decompose (str ''2020-01-02T12:34:56+12:34'') = Some m"
    "groups m tzinfo = Some (str ''+12:34'')"
    by blast
  from supergroups_partition [OF m(1)] m show ?thesis
    by auto
qed

lemma date_shape_separators:
  "date_shape w G \<Longrightarrow>
     (\<forall>mo. G month = Some mo \<longrightarrow>
        (\<exists>yr h d. (h = [] \<or> h = str ''-'') \<and> digits 4 yr \<and> digits 2 mo \<and> digits 2 d \<and>
           G year = Some yr \<and> G ymd_hyphen = Some h \<and> G day = Some d \<and>
           G date = Some (yr @ h @ mo @ h @ d))) \<and>
     (\<forall>wk. G week = Some wk \<longrightarrow>
        (\<exists>yr h wd. (h = [] \<or> h = str ''-'') \<and> digits 4 yr \<and> digits 2 wk \<and> length wd = 1 \<and>
           G year = Some yr \<and> G ywd_hyphen = Some h \<and> G weekday = Some wd \<and>
           G date = Some (yr @ h @ str ''W'' @ wk @ h @ wd)))"
  unfolding date_shape_def sep_def
  apply (elim conjE exE disjE)
       apply (simp_all add: str_def cu_def)
  done

text \<open>
  C3. In the calendar form the hyphen between year and month and the hyphen between month
  and day are the same string (both a hyphen or both empty), and likewise the two hyphens
  of the week form: the \<open>date\<close> capture is year, separator, month, the same separator,
  day (or year, separator, W, week, the same separator, weekday). The mixed input
  \<^verbatim>\<open>2020-0102T12:34:56\<close> is rejected by both patterns.
\<close>

theorem consistent_separators:
  "(decompose inp = Some m \<longrightarrow>
     (\<forall>mo. groups m month = Some mo \<longrightarrow>
        (\<exists>yr h d. (h = [] \<or> h = str ''-'') \<and> digits 4 yr \<and> digits 2 mo \<and> digits 2 d \<and>
           groups m year = Some yr \<and> groups m ymd_hyphen = Some h \<and> groups m day = Some d \<and>
           groups m date = Some (yr @ h @ mo @ h @ d))) \<and>
     (\<forall>wk. groups m week = Some wk \<longrightarrow>
        (\<exists>yr h wd. (h = [] \<or> h = str ''-'') \<and> digits 4 yr \<and> digits 2 wk \<and> length wd = 1 \<and>
           groups m year = Some yr \<and> groups m ywd_hyphen = Some h \<and>
           groups m weekday = Some wd \<and>
           groups m date = Some (yr @ h @ str ''W'' @ wk @ h @ wd)))) \<and>
   \<not> is_valid (str ''2020-0102T12:34:56'') \<and>
   decompose (str ''2020-0102T12:34:56'') = None"
proof (intro conjI impI)
  assume "decompose inp = Some m"
  from decompose_shape [OF this] obtain dt where d: "date_shape dt (groups m)"
    by blast
  from date_shape_separators [OF d]
  show "\<forall>mo. groups m month = Some mo \<longrightarrow>
        (\<exists>yr h d. (h = [] \<or> h = str ''-'') \<and> digits 4 yr \<and> digits 2 mo \<and> digits 2 d \<and>
           groups m year = Some yr \<and> groups m ymd_hyphen = Some h \<and> groups m day = Some d \<and>
           groups m date = Some (yr @ h @ mo @ h @ d))"
    by (rule conjunct1)
  from date_shape_separators [OF d]
  show "\<forall>wk. groups m week = Some wk \<longrightarrow>
        (\<exists>yr h wd. (h = [] \<or> h = str ''-'') \<and> digits 4 yr \<and> digits 2 wk \<and> length wd = 1 \<and>
           groups m year = Some yr \<and> groups m ywd_hyphen = Some h \<and>
           groups m weekday = Some wd \<and>
           groups m date = Some (yr @ h @ str ''W'' @ wk @ h @ wd))"
    by (rule conjunct2)
next
  show "\<not> is_valid (str ''2020-0102T12:34:56'')"
    by (simp add: eval_simps)
next
  show "decompose (str ''2020-0102T12:34:56'') = None"
    by (simp add: eval_simps)
qed

theorem consistent_separators_witness:
  "\<exists>m yr h d. decompose (str ''2020-01-02T12:34:56'') = Some m \<and>
     groups m month = Some (str ''01'') \<and> groups m ymd_hyphen = Some h \<and>
     groups m date = Some (yr @ h @ str ''01'' @ h @ d)"
proof -
  have "\<exists>m. decompose (str ''2020-01-02T12:34:56'') = Some m \<and>
     groups m month = Some (str ''01'')"
    by (simp add: eval_simps)
  then obtain m where m: "decompose (str ''2020-01-02T12:34:56'') = Some m"
    "groups m month = Some (str ''01'')"
    by blast
  from consistent_separators [of "str ''2020-01-02T12:34:56''" m] m show ?thesis
    by blast
qed

lemma time_shape_nesting:
  "time_shape w G \<Longrightarrow>
     (G second \<noteq> None \<longrightarrow> G minute \<noteq> None) \<and>
     (G microsecond \<noteq> None \<longrightarrow> G second \<noteq> None) \<and>
     (\<forall>us. G microsecond = Some us \<longrightarrow>
        1 \<le> length us \<and> length us \<le> 6 \<and> list_all is_digit us \<and>
        (\<exists>hh s mi ss. digits 2 hh \<and> (s = [] \<or> s = str '':'') \<and> digits 2 mi \<and> digits 2 ss \<and>
           G hour = Some hh \<and> G hms_colon = Some s \<and> G minute = Some mi \<and>
           G second = Some ss \<and>
           G time = Some (hh @ s @ mi @ s @ ss @ str ''.'' @ us)))"
  unfolding time_shape_def sep_def fraction_def
  apply (elim conjE exE disjE)
         apply (simp_all add: str_def cu_def)
  done

text \<open>
  C6. The time field is nested: whenever the decomposing match succeeds, a second
  implies a minute, a microsecond implies a second, and a microsecond is 1 to 6 digits
  that follow hour, minute, second and a literal dot in the \<open>time\<close> capture. An hour
  alone is accepted, and so is hour and minute without second; a fraction of 7 digits is
  rejected by both patterns.
\<close>

theorem time_nesting:
  "(decompose inp = Some m \<longrightarrow>
     (groups m second \<noteq> None \<longrightarrow> groups m minute \<noteq> None) \<and>
     (groups m microsecond \<noteq> None \<longrightarrow> groups m second \<noteq> None) \<and>
     (\<forall>us. groups m microsecond = Some us \<longrightarrow>
        1 \<le> length us \<and> length us \<le> 6 \<and> list_all is_digit us \<and>
        (\<exists>hh s mi ss. digits 2 hh \<and> (s = [] \<or> s = str '':'') \<and> digits 2 mi \<and> digits 2 ss \<and>
           groups m hour = Some hh \<and> groups m hms_colon = Some s \<and>
           groups m minute = Some mi \<and> groups m second = Some ss \<and>
           groups m time = Some (hh @ s @ mi @ s @ ss @ str ''.'' @ us)))) \<and>
   (\<exists>m. decompose (str ''2020-01-02T12'') = Some m \<and> groups m hour = Some (str ''12'') \<and>
      groups m minute = None \<and> groups m second = None \<and> groups m microsecond = None) \<and>
   (\<exists>m. decompose (str ''2020-01-02T12:34'') = Some m \<and> groups m minute = Some (str ''34'') \<and>
      groups m second = None \<and> groups m microsecond = None) \<and>
   (\<exists>m. decompose (str ''2020-01-02T12:34:56.123456'') = Some m \<and>
      groups m second = Some (str ''56'') \<and> groups m microsecond = Some (str ''123456'')) \<and>
   decompose (str ''2020-01-02T12:34:56.1234567'') = None \<and>
   \<not> is_valid (str ''2020-01-02T12:34:56.1234567'')"
proof (intro conjI impI)
  assume "decompose inp = Some m"
  from decompose_shape [OF this] obtain tm where t: "time_shape tm (groups m)"
    by blast
  from time_shape_nesting [OF t]
  show "groups m second \<noteq> None \<Longrightarrow> groups m minute \<noteq> None"
    and "groups m microsecond \<noteq> None \<Longrightarrow> groups m second \<noteq> None"
    and "\<forall>us. groups m microsecond = Some us \<longrightarrow>
        1 \<le> length us \<and> length us \<le> 6 \<and> list_all is_digit us \<and>
        (\<exists>hh s mi ss. digits 2 hh \<and> (s = [] \<or> s = str '':'') \<and> digits 2 mi \<and> digits 2 ss \<and>
           groups m hour = Some hh \<and> groups m hms_colon = Some s \<and>
           groups m minute = Some mi \<and> groups m second = Some ss \<and>
           groups m time = Some (hh @ s @ mi @ s @ ss @ str ''.'' @ us))"
    by blast+
qed (simp_all add: eval_simps)

theorem time_nesting_witness:
  "\<exists>m. decompose (str ''2020-01-02T12:34:56.5'') = Some m \<and>
     groups m microsecond = Some (str ''5'') \<and> groups m second \<noteq> None \<and>
     groups m minute \<noteq> None"
proof -
  have "\<exists>m. decompose (str ''2020-01-02T12:34:56.5'') = Some m \<and>
     groups m microsecond = Some (str ''5'')"
    by (simp add: eval_simps)
  then obtain m where m: "decompose (str ''2020-01-02T12:34:56.5'') = Some m"
    "groups m microsecond = Some (str ''5'')"
    by blast
  from time_nesting [of "str ''2020-01-02T12:34:56.5''" m] m show ?thesis
    by auto
qed

lemma tz_shape_suffix:
  assumes "decompose inp = Some m"
  shows "\<exists>pre tz. inp = pre @ tz \<and> tz_shape tz (groups m)"
proof -
  from decompose_shape [OF assms] obtain dt tm tz where
    "inp = (dt @ str ''T'' @ tm) @ tz" "tz_shape tz (groups m)"
    by auto
  then show ?thesis by blast
qed

text \<open>
  C7. The timezone designator is optional. Whenever the decomposing match succeeds, the
  input ends with a designator \<open>tz\<close> of the shape \<open>tz_shape\<close>: nothing at all (every
  timezone group absent), or the single letter Z, or a sign (ASCII plus, ASCII
  hyphen-minus or U+2212) and a two-digit hour, then optionally a minute, then optionally
  a second, each preceded by an optional colon of its own; a second never comes without
  a minute. The colons of the offset are linked neither to each other nor to the
  separators of the date or of the time.
\<close>

theorem timezone_designator:
  "(decompose inp = Some m \<longrightarrow>
      (\<exists>pre tz. inp = pre @ tz \<and> tz_shape tz (groups m)) \<and>
      (groups m tzsecond \<noteq> None \<longrightarrow> groups m tzminute \<noteq> None) \<and>
      (groups m tzminute \<noteq> None \<longrightarrow> groups m tzhour \<noteq> None)) \<and>
   (\<exists>m. decompose (str ''2020-01-02T12:34:56'') = Some m \<and> groups m tzinfo = None \<and>
      groups m tzsign = None \<and> groups m tzhour = None) \<and>
   (\<exists>m. decompose (str ''2020-01-02T12:34:56Z'') = Some m \<and>
      groups m tzinfo = Some (str ''Z'') \<and> groups m tzsign = None) \<and>
   (\<exists>m. decompose (str ''2020-01-02T12:34:56+12'') = Some m \<and>
      groups m tzsign = Some (str ''+'') \<and> groups m tzhour = Some (str ''12'') \<and>
      groups m tzminute = None) \<and>
   (\<exists>m. decompose (str ''2020-01-02T12:34:56-1234'') = Some m \<and>
      groups m tzsign = Some (str ''-'') \<and> groups m tzminute = Some (str ''34'') \<and>
      groups m tzsecond = None) \<and>
   (\<exists>m. decompose (str ''2020-01-02T12:34:56'' @ [0x2212] @ str ''12:34'') = Some m \<and>
      groups m tzsign = Some [0x2212] \<and> groups m tzminute = Some (str ''34'')) \<and>
   (\<exists>m. decompose (str ''20200102T12:34:56+12:3456'') = Some m \<and>
      groups m tzminute = Some (str ''34'') \<and> groups m tzsecond = Some (str ''56'')) \<and>
   (\<exists>m. decompose (str ''2020-01-02T123456+1234:56'') = Some m \<and>
      groups m tzminute = Some (str ''34'') \<and> groups m tzsecond = Some (str ''56''))"
proof (intro conjI impI)
  assume d: "decompose inp = Some m"
  from tz_shape_suffix [OF d] show "\<exists>pre tz. inp = pre @ tz \<and> tz_shape tz (groups m)" .
  then obtain tz where z: "tz_shape tz (groups m)"
    by blast
  from z show "groups m tzsecond \<noteq> None \<Longrightarrow> groups m tzminute \<noteq> None"
    unfolding tz_shape_def by (elim conjE exE disjE) simp_all
  from z show "groups m tzminute \<noteq> None \<Longrightarrow> groups m tzhour \<noteq> None"
    unfolding tz_shape_def by (elim conjE exE disjE) simp_all
qed (simp_all add: eval_simps)

theorem timezone_designator_witness:
  "\<exists>m pre tz. decompose (str ''2020-01-02T12:34:56+12:3456'') = Some m \<and>
     str ''2020-01-02T12:34:56+12:3456'' = pre @ tz \<and> tz_shape tz (groups m) \<and>
     groups m tzsecond = Some (str ''56'') \<and> groups m tzminute \<noteq> None"
proof -
  have "\<exists>m. decompose (str ''2020-01-02T12:34:56+12:3456'') = Some m \<and>
     groups m tzsecond = Some (str ''56'')"
    by (simp add: eval_simps)
  then obtain m where m: "decompose (str ''2020-01-02T12:34:56+12:3456'') = Some m"
    "groups m tzsecond = Some (str ''56'')"
    by blast
  from timezone_designator [of "str ''2020-01-02T12:34:56+12:3456''" m] m show ?thesis
    by auto
qed

section \<open>First and last character of an accepted input\<close>

lemma ends_with_append: "ends_with P b \<Longrightarrow> ends_with P (a @ b)"
  by (simp add: ends_with_def)

lemma ends_with_Cons: "ends_with P b \<Longrightarrow> ends_with P (a # b)"
  by (simp add: ends_with_def)

lemma ends_with_mono: "ends_with P w \<Longrightarrow> (\<And>c. P c \<Longrightarrow> Q c) \<Longrightarrow> ends_with Q w"
  by (simp add: ends_with_def)

lemma list_all_last: "list_all P w \<Longrightarrow> w \<noteq> [] \<Longrightarrow> P (last w)"
  by (simp add: list_all_iff)

lemma digits_ends: "digits (Suc n) w \<Longrightarrow> ends_with is_digit w"
  by (auto simp: digits_def ends_with_def intro: list_all_last)

lemma digits_2_ends: "digits 2 w \<Longrightarrow> ends_with is_digit w"
  using digits_ends [of 1 w] by (simp add: numeral_2_eq_2)

lemma digits_2_ends_ok: "digits 2 w \<Longrightarrow> ends_with (\<lambda>c. is_digit c \<or> c = a) w"
  by (rule ends_with_mono [OF digits_2_ends]) simp_all

lemma fraction_ends: "fraction w \<Longrightarrow> ends_with is_digit w"
  by (auto simp: fraction_def ends_with_def intro: list_all_last)

lemma time_shape_ends: "time_shape w G \<Longrightarrow> ends_with is_digit w"
  unfolding time_shape_def
  by (elim conjE exE disjE)
     (simp_all add: ends_with_append ends_with_Cons digits_2_ends fraction_ends str_def)

lemma tz_shape_ends:
  "tz_shape w G \<Longrightarrow> w = [] \<or> ends_with (\<lambda>c. is_digit c \<or> c = cu CHR ''Z'') w"
  unfolding tz_shape_def
  by (elim conjE exE disjE)
     (simp_all add: str_def ends_with_append ends_with_Cons digits_2_ends_ok,
      simp add: ends_with_def)

lemma date_shape_hd: "date_shape w G \<Longrightarrow> \<exists>c cs. w = c # cs \<and> is_digit c"
proof -
  assume "date_shape w G"
  then obtain yr w' where w: "w = yr @ w'" and yr: "digits 4 yr"
    unfolding date_shape_def by (elim conjE exE disjE) blast+
  from yr obtain c cs where "yr = c # cs" "is_digit c"
    by (cases yr) (auto simp: digits_def)
  with w show ?thesis by simp
qed

lemma decompose_first:
  assumes "decompose inp = Some m"
  shows "\<exists>c cs. inp = c # cs \<and> is_digit c"
proof -
  from decompose_shape [OF assms] obtain dt w where
    "inp = dt @ w" "date_shape dt (groups m)"
    by blast
  then show ?thesis
    by (auto dest!: date_shape_hd)
qed

lemma decompose_last:
  assumes "decompose inp = Some m"
  shows "ends_with (\<lambda>c. is_digit c \<or> c = cu CHR ''Z'') inp"
proof -
  from decompose_shape [OF assms] obtain dt tm tz where
    inp: "inp = dt @ str ''T'' @ tm @ tz" and t: "time_shape tm (groups m)"
    and z: "tz_shape tz (groups m)"
    by blast
  show ?thesis
  proof (cases "tz = []")
    case True
    have "ends_with (\<lambda>c. is_digit c \<or> c = cu CHR ''Z'') tm"
      using time_shape_ends [OF t] by (rule ends_with_mono) simp
    then show ?thesis
      unfolding inp True by (simp add: ends_with_append)
  next
    case False
    with tz_shape_ends [OF z] show ?thesis
      unfolding inp by (simp add: ends_with_append)
  qed
qed

lemma minimalist_anchored:
  "\<exists>r. regex_iso8601_datetime_minimalist = Seq Bol r \<and> ends_eol r"
  by (simp add: regex_iso8601_datetime_minimalist_def)

section \<open>Every accepted input is in the grammar of the specification\<close>

lemma date_shape_spec: "date_shape w G \<Longrightarrow> spec_date w"
  unfolding date_shape_def spec_date_def by (elim conjE exE disjE) blast+

lemma time_shape_spec: "time_shape w G \<Longrightarrow> spec_time w"
  unfolding time_shape_def spec_time_def by (elim conjE exE disjE) blast+

lemma tz_shape_spec: "tz_shape w G \<Longrightarrow> w = [] \<or> spec_tzinfo w"
  unfolding tz_shape_def spec_tzinfo_def by (elim conjE exE disjE) blast+

lemma decompose_spec: "decompose inp = Some m \<Longrightarrow> spec_datetime inp"
  unfolding spec_datetime_def
  by (drule decompose_shape) (blast dest: date_shape_spec time_shape_spec tz_shape_spec)

lemma spec_datetime_T: "spec_datetime inp \<Longrightarrow> cu CHR ''T'' \<in> set inp"
  by (auto simp: spec_datetime_def str_def)

section \<open>Every input in the grammar of the specification is accepted\<close>

lemma results_complete:
  "matches (r :: 'g regex) c w c' \<Longrightarrow> anchor_free r \<Longrightarrow> captures x = c \<Longrightarrow>
   rest x = w @ z \<Longrightarrow>
   \<exists>y \<in> set (results r x).
      rest y = z \<and> endIndex y = endIndex x + length w \<and> captures y = c'"
proof (induction arbitrary: x z rule: matches.induct)
  case (m_Eps c)
  then show ?case by simp
next
  case (m_Chr a c)
  then show ?case by (simp add: advance_def)
next
  case (m_Class rs a c)
  then show ?case by (simp add: advance_def)
next
  case (m_Seq a c w1 c1 b w2 c2)
  from m_Seq.prems have af: "anchor_free a" "anchor_free b" and r: "rest x = w1 @ (w2 @ z)"
    by simp_all
  from m_Seq.IH(1) [OF af(1) m_Seq.prems(2) r] obtain t where
    t: "t \<in> set (results a x)" "rest t = w2 @ z" "endIndex t = endIndex x + length w1"
      "captures t = c1"
    by blast
  from m_Seq.IH(2) [OF af(2) t(4) t(2)] obtain y where
    y: "y \<in> set (results b t)" "rest y = z" "endIndex y = endIndex t + length w2"
      "captures y = c2"
    by blast
  from t(1) y(1) have m: "y \<in> set (results (Seq a b) x)"
    by auto
  show ?case
    by (rule bexI [OF _ m]) (simp add: y t(3))
next
  case (m_Alt1 a c w c' b)
  from m_Alt1.IH [of x z] m_Alt1.prems show ?case by auto
next
  case (m_Alt2 b c w c' a)
  from m_Alt2.IH [of x z] m_Alt2.prems show ?case by auto
next
  case (m_Rep_done hi lo r c)
  then show ?case by (cases hi) auto
next
  case (m_Rep_step r c w1 c1 lo hi w2 c2)
  from m_Rep_step.prems have af: "anchor_free r" "anchor_free (Rep (lo - 1) hi r)"
    and r: "rest (reset (groups_of r) x) = w1 @ (w2 @ z)"
    and c: "captures (reset (groups_of r) x) = reset_caps (groups_of r) c"
    by (auto simp: reset_def reset_caps_def)
  from m_Rep_step.IH(1) [OF af(1) c r] obtain t where
    t: "t \<in> set (results r (reset (groups_of r) x))" "rest t = w2 @ z"
      "endIndex t = endIndex x + length w1" "captures t = c1"
    by (auto simp: reset_def)
  from m_Rep_step.IH(2) [OF af(2) t(4) t(2)] obtain y where
    y: "y \<in> set (results (Rep (lo - 1) hi r) t)" "rest y = z"
      "endIndex y = endIndex t + length w2" "captures y = c2"
    by blast
  have e: "\<not> (lo = 0 \<and> endIndex t = endIndex x)"
    using t(3) m_Rep_step.hyps(2) by auto
  have m: "y \<in> set (results (Rep lo (Suc hi) r) x)"
    using t(1) y(1) e by auto
  show ?case
    by (rule bexI [OF _ m]) (simp add: y t(3))
next
  case (m_Group r c w c' g)
  from m_Group.prems have af: "anchor_free r" by simp
  from m_Group.IH [OF af m_Group.prems(2,3)] obtain t where
    t: "t \<in> set (results r x)" "rest t = z" "endIndex t = endIndex x + length w"
      "captures t = c'"
    by blast
  have p: "rest (capture g x t) = z \<and> endIndex (capture g x t) = endIndex x + length w \<and>
    captures (capture g x t) = c'(g \<mapsto> w)"
    using t(2,3,4) m_Group.prems(3) by (simp add: capture_def)
  have m: "capture g x t \<in> set (results (Group g r) x)"
    using t(1) by simp
  show ?case
    by (rule bexI [OF _ m]) (rule p)
next
  case (m_NonCap r c w c')
  from m_NonCap.IH [of x z] m_NonCap.prems show ?case by auto
next
  case (m_Backref g c)
  then show ?case
    by (cases "c g") (auto simp: advance_def)
next
  case (m_Bol c)
  then show ?case by simp
next
  case (m_Eol c)
  then show ?case by simp
qed

lemma matches_Rep_ClassI:
  "list_all (in_class rs) w \<Longrightarrow> lo \<le> length w \<Longrightarrow> length w \<le> hi \<Longrightarrow>
   matches (Rep lo hi (Class rs)) c w c"
proof (induction w arbitrary: lo hi)
  case Nil
  then show ?case by (auto intro: m_Rep_done)
next
  case (Cons a w)
  from Cons.prems obtain hi' where hi: "hi = Suc hi'"
    by (cases hi) auto
  have A: "matches (Class rs) (reset_caps (groups_of (Class rs)) c) [a] c"
    using Cons.prems(1) by (simp add: reset_caps_Nil m_Class)
  have B: "matches (Rep (lo - 1) hi' (Class rs)) c w c"
    using Cons.prems hi by (intro Cons.IH) auto
  have n: "\<not> (lo = 0 \<and> [a] = [])"
    by simp
  from m_Rep_step [OF A n B] show ?case
    by (simp add: hi)
qed

lemma digitsI: "digits n w \<Longrightarrow> matches (Rep n n digit) c w c"
  by (rule matches_Rep_ClassI) (simp_all add: digits_def in_class_digit)

lemma fractionI: "fraction w \<Longrightarrow> matches (Rep 1 6 digit) c w c"
  by (rule matches_Rep_ClassI) (simp_all add: fraction_def in_class_digit)

lemma m_Opt_skip: "matches (Opt r) c [] c"
  by (simp add: matches_Opt)

lemma m_Opt_take:
  "w \<noteq> [] \<Longrightarrow> matches r (reset_caps (groups_of r) c) w c' \<Longrightarrow> matches (Opt r) c w c'"
  by (simp add: matches_Opt)

lemma sepI: "sep ch h \<Longrightarrow> matches (Opt (Chr (cu ch))) c h c"
  by (simp add: matches_Opt_Chr_sep)

lemma backrefI: "c g = Some v \<Longrightarrow> matches (Backref g) c v c"
  using m_Backref [of g c] by simp

lemma m_Seq_Nil:
  "matches a c w c1 \<Longrightarrow> matches b c1 [] c2 \<Longrightarrow> matches (Seq a b) c w c2"
  using m_Seq [of a c w c1 b "[]" c2] by simp

lemma digits_2_ne: "digits 2 w \<Longrightarrow> w \<noteq> []"
  by (auto simp: digits_def)

lemma calendar_matches:
  "digits 4 yr \<Longrightarrow> sep CHR ''-'' h \<Longrightarrow> digits 2 mo \<Longrightarrow> digits 2 d \<Longrightarrow>
   \<exists>c'. matches re_date c (yr @ h @ mo @ h @ d) c'"
  unfolding re_date_def seqs.simps alts.simps
  apply (rule exI, rule m_Group, rule m_Seq, rule m_Group, rule digitsI, assumption)
  apply (rule m_NonCap, rule m_Alt1)
  apply (rule m_Seq, rule m_Group, rule sepI, assumption)
  apply (rule m_Seq, rule m_Group, rule digitsI, assumption)
  apply (rule m_Seq, rule backrefI, simp)
  apply (rule m_Group, rule digitsI, assumption)
  done

lemma week_matches:
  "digits 4 yr \<Longrightarrow> sep CHR ''-'' h \<Longrightarrow> digits 2 wk \<Longrightarrow>
   cu CHR ''1'' \<le> wd \<Longrightarrow> wd \<le> cu CHR ''7'' \<Longrightarrow>
   \<exists>c'. matches re_date c (yr @ h @ str ''W'' @ wk @ h @ [wd]) c'"
  unfolding re_date_def seqs.simps alts.simps str_def list.map
  apply (rule exI, rule m_Group, rule m_Seq, rule m_Group, rule digitsI, assumption)
  apply (rule m_NonCap, rule m_Alt2, rule m_Alt1)
  apply (rule m_Seq, rule m_Group, rule sepI, assumption)
  apply (rule m_Seq, rule m_Chr)
  apply (rule m_Seq, rule m_Group, rule digitsI, assumption)
  apply (rule m_Seq, rule backrefI, simp)
  apply (rule m_Group, rule m_Class, simp)
  done

lemma ordinal_matches:
  "digits 4 yr \<Longrightarrow> sep CHR ''-'' h \<Longrightarrow> digits 3 od \<Longrightarrow>
   \<exists>c'. matches re_date c (yr @ h @ od) c'"
  unfolding re_date_def seqs.simps alts.simps
  apply (rule exI, rule m_Group, rule m_Seq, rule m_Group, rule digitsI, assumption)
  apply (rule m_NonCap, rule m_Alt2, rule m_Alt2)
  apply (rule m_Seq, rule sepI, assumption)
  apply (rule m_Group, rule digitsI, assumption)
  done

lemma spec_date_matches: "spec_date w \<Longrightarrow> \<exists>c'. matches re_date c w c'"
  unfolding spec_date_def
  by (elim exE conjE disjE) (simp_all add: calendar_matches week_matches ordinal_matches)

lemma time_matches_h:
  "digits 2 hh \<Longrightarrow> \<exists>c'. matches re_time c hh c'"
  unfolding re_time_def seqs.simps
  apply (rule exI, rule m_Group, rule m_Seq_Nil, rule m_Group, rule digitsI, assumption)
  apply (rule m_Opt_skip)
  done

lemma time_matches_hm:
  "digits 2 hh \<Longrightarrow> sep CHR '':'' s \<Longrightarrow> digits 2 mi \<Longrightarrow>
   \<exists>c'. matches re_time c (hh @ s @ mi) c'"
  unfolding re_time_def seqs.simps
  apply (rule exI, rule m_Group, rule m_Seq, rule m_Group, rule digitsI, assumption)
  apply (rule m_Opt_take, simp add: digits_2_ne, rule m_NonCap)
  apply (rule m_Seq, rule m_Group, rule sepI, assumption)
  apply (rule m_Seq_Nil, rule m_Group, rule digitsI, assumption)
  apply (rule m_Opt_skip)
  done

lemma time_matches_hms:
  "digits 2 hh \<Longrightarrow> sep CHR '':'' s \<Longrightarrow> digits 2 mi \<Longrightarrow> digits 2 ss \<Longrightarrow>
   \<exists>c'. matches re_time c (hh @ s @ mi @ s @ ss) c'"
  unfolding re_time_def seqs.simps
  apply (rule exI, rule m_Group, rule m_Seq, rule m_Group, rule digitsI, assumption)
  apply (rule m_Opt_take, simp add: digits_2_ne, rule m_NonCap)
  apply (rule m_Seq, rule m_Group, rule sepI, assumption)
  apply (rule m_Seq, rule m_Group, rule digitsI, assumption)
  apply (rule m_Opt_take, simp add: digits_2_ne, rule m_NonCap)
  apply (rule m_Seq, rule backrefI, simp add: reset_caps_def groups_of_Opt)
  apply (rule m_Seq_Nil, rule m_Group, rule digitsI, assumption)
  apply (rule m_Opt_skip)
  done

lemma time_matches_hmsf:
  "digits 2 hh \<Longrightarrow> sep CHR '':'' s \<Longrightarrow> digits 2 mi \<Longrightarrow> digits 2 ss \<Longrightarrow> fraction us \<Longrightarrow>
   \<exists>c'. matches re_time c (hh @ s @ mi @ s @ ss @ str ''.'' @ us) c'"
  unfolding re_time_def seqs.simps str_def list.map
  apply (rule exI, rule m_Group, rule m_Seq, rule m_Group, rule digitsI, assumption)
  apply (rule m_Opt_take, simp add: digits_2_ne, rule m_NonCap)
  apply (rule m_Seq, rule m_Group, rule sepI, assumption)
  apply (rule m_Seq, rule m_Group, rule digitsI, assumption)
  apply (rule m_Opt_take, simp add: digits_2_ne, rule m_NonCap)
  apply (rule m_Seq, rule backrefI, simp add: reset_caps_def groups_of_Opt)
  apply (rule m_Seq, rule m_Group, rule digitsI, assumption)
  apply (rule m_Opt_take, simp, rule m_NonCap)
  apply (rule m_Seq, rule m_Chr)
  apply (rule m_Group, rule fractionI, assumption)
  done

lemma spec_time_matches: "spec_time w \<Longrightarrow> \<exists>c'. matches re_time c w c'"
  unfolding spec_time_def
  by (elim exE conjE disjE)
     (simp_all add: time_matches_h time_matches_hm time_matches_hms time_matches_hmsf)

lemma signI:
  "is_sign sg \<Longrightarrow>
   matches (Class [(cu CHR ''+'', cu CHR ''+''), (cu CHR ''-'', cu CHR ''-''),
                   (0x2212, 0x2212)]) c [sg] c"
  by (rule m_Class) (simp add: in_class_sign)

lemma tz_matches_Z: "\<exists>c'. matches re_tzinfo c (str ''Z'') c'"
  unfolding re_tzinfo_def seqs.simps alts.simps str_def list.map
  by (rule exI, rule m_Group, rule m_Alt1, rule m_Chr)

lemma tz_matches_h:
  "is_sign sg \<Longrightarrow> digits 2 th \<Longrightarrow> \<exists>c'. matches re_tzinfo c (sg # th) c'"
  unfolding re_tzinfo_def seqs.simps alts.simps
  apply (rule exI, rule m_Group, rule m_Alt2)
  apply (rule m_Seq [of _ _ "[sg]", simplified], rule m_Group, rule signI, assumption)
  apply (rule m_Seq_Nil, rule m_Group, rule digitsI, assumption)
  apply (rule m_Opt_skip)
  done

lemma tz_matches_hm:
  "is_sign sg \<Longrightarrow> digits 2 th \<Longrightarrow> sep CHR '':'' s1 \<Longrightarrow> digits 2 tm \<Longrightarrow>
   \<exists>c'. matches re_tzinfo c (sg # th @ s1 @ tm) c'"
  unfolding re_tzinfo_def seqs.simps alts.simps
  apply (rule exI, rule m_Group, rule m_Alt2)
  apply (rule m_Seq [of _ _ "[sg]", simplified], rule m_Group, rule signI, assumption)
  apply (rule m_Seq, rule m_Group, rule digitsI, assumption)
  apply (rule m_Opt_take, simp add: digits_2_ne, rule m_NonCap)
  apply (rule m_Seq, rule sepI, assumption)
  apply (rule m_Seq_Nil, rule m_Group, rule digitsI, assumption)
  apply (rule m_Opt_skip)
  done

lemma tz_matches_hms:
  "is_sign sg \<Longrightarrow> digits 2 th \<Longrightarrow> sep CHR '':'' s1 \<Longrightarrow> digits 2 tm \<Longrightarrow>
   sep CHR '':'' s2 \<Longrightarrow> digits 2 ts \<Longrightarrow>
   \<exists>c'. matches re_tzinfo c (sg # th @ s1 @ tm @ s2 @ ts) c'"
  unfolding re_tzinfo_def seqs.simps alts.simps
  apply (rule exI, rule m_Group, rule m_Alt2)
  apply (rule m_Seq [of _ _ "[sg]", simplified], rule m_Group, rule signI, assumption)
  apply (rule m_Seq, rule m_Group, rule digitsI, assumption)
  apply (rule m_Opt_take, simp add: digits_2_ne, rule m_NonCap)
  apply (rule m_Seq, rule sepI, assumption)
  apply (rule m_Seq, rule m_Group, rule digitsI, assumption)
  apply (rule m_Opt_take, simp add: digits_2_ne, rule m_NonCap)
  apply (rule m_Seq, rule sepI, assumption)
  apply (rule m_Group, rule digitsI, assumption)
  done

lemma spec_tzinfo_ne: "spec_tzinfo w \<Longrightarrow> w \<noteq> []"
  by (auto simp: spec_tzinfo_def str_def)

lemma spec_tzinfo_matches: "spec_tzinfo w \<Longrightarrow> \<exists>c'. matches re_tzinfo c w c'"
  unfolding spec_tzinfo_def
  by (elim exE conjE disjE)
     (simp_all add: tz_matches_Z tz_matches_h tz_matches_hm tz_matches_hms)

lemma spec_tz_opt_matches:
  "tz = [] \<or> spec_tzinfo tz \<Longrightarrow> \<exists>c'. matches (Opt re_tzinfo) c tz c'"
  using spec_tzinfo_matches [of tz "reset_caps (groups_of re_tzinfo) c"]
  by (auto simp: matches_Opt dest: spec_tzinfo_ne)

lemma anchor_free_parts:
  "anchor_free re_date" "anchor_free re_time" "anchor_free (Opt re_tzinfo)"
  by (simp_all add: re_date_def re_time_def re_tzinfo_def Opt_def)

lemma accept_parts:
  assumes D: "matches re_date (\<lambda>g. None) dt c1" and T: "matches re_time c1 tm c2"
    and Z: "matches (Opt re_tzinfo) c2 tz c3"
  shows "decompose (dt @ str ''T'' @ tm @ tz) \<noteq> None"
proof -
  let ?inp = "dt @ str ''T'' @ tm @ tz"
  let ?x = "init 0 ?inp :: gname MatchState"
  from results_complete [OF D anchor_free_parts(1), of ?x "str ''T'' @ tm @ tz"]
  obtain t1 where t1: "t1 \<in> set (results re_date ?x)" "rest t1 = str ''T'' @ tm @ tz"
    "captures t1 = c1"
    by (auto simp: init_def)
  let ?t2 = "advance 1 t1"
  have t2: "?t2 \<in> set (results (Chr (cu CHR ''T'')) t1)" "rest ?t2 = tm @ tz"
    "captures ?t2 = c1"
    using t1(2,3) by (simp_all add: str_def advance_def)
  from results_complete [OF T anchor_free_parts(2) t2(3) t2(2)]
  obtain t3 where t3: "t3 \<in> set (results re_time ?t2)" "rest t3 = tz" "captures t3 = c2"
    by blast
  from results_complete [OF Z anchor_free_parts(3) t3(3), of "[]"] t3(2)
  obtain t4 where t4: "t4 \<in> set (results (Opt re_tzinfo) t3)" "rest t4 = []"
    by auto
  have "t4 \<in> set (results regex_iso8601_datetime ?x)"
    unfolding regex_parts using t1(1) t2(1) t3(1) t4
    by (auto simp: init_def simp del: results.simps(2))
  then have "results regex_iso8601_datetime ?x \<noteq> []"
    by auto
  then show ?thesis
    unfolding decompose_def js_match_def
    by (subst exec_from_results) (simp split: list.splits)
qed

lemma spec_decompose: "spec_datetime inp \<Longrightarrow> decompose inp \<noteq> None"
proof -
  assume "spec_datetime inp"
  then obtain dt tm tz where inp: "inp = dt @ str ''T'' @ tm @ tz" and
    s: "spec_date dt" "spec_time tm" "tz = [] \<or> spec_tzinfo tz"
    unfolding spec_datetime_def by blast
  from spec_date_matches [OF s(1)] obtain c1 where D: "matches re_date (\<lambda>g. None) dt c1"
    by blast
  from spec_time_matches [OF s(2)] obtain c2 where T: "matches re_time c1 tm c2"
    by blast
  from spec_tz_opt_matches [OF s(3)] obtain c3 where Z: "matches (Opt re_tzinfo) c2 tz c3"
    by blast
  from accept_parts [OF D T Z] show ?thesis
    by (simp add: inp)
qed

lemma decompose_iff_spec: "(decompose inp \<noteq> None) = spec_datetime inp"
  using spec_decompose [of inp] decompose_spec [of inp] by blast

section \<open>Acceptance, for all digits\<close>

lemma digits_str [simp]:
  "digits n (str s) = (length s = n \<and> list_all (\<lambda>ch. is_digit (cu ch)) s)"
  by (simp add: digits_def str_def list_all_iff)

lemma spec_accepted:
  assumes "spec_date dt" "spec_time tm" "tz = [] \<or> spec_tzinfo tz"
  shows "is_valid (dt @ str ''T'' @ tm @ tz) \<and> decompose (dt @ str ''T'' @ tm @ tz) \<noteq> None"
proof -
  from assms have "spec_datetime (dt @ str ''T'' @ tm @ tz)"
    unfolding spec_datetime_def by blast
  then show ?thesis
    by (simp add: spec_decompose is_valid_decompose)
qed

lemma spec_date_forms:
  assumes "digits 4 yr" "sep CHR ''-'' h" "digits 2 mo" "digits 2 d" "digits 2 wk"
    "cu CHR ''1'' \<le> wd" "wd \<le> cu CHR ''7''" "digits 3 od"
  shows "spec_date (yr @ h @ mo @ h @ d)" "spec_date (yr @ h @ str ''W'' @ wk @ h @ [wd])"
    "spec_date (yr @ h @ od)"
  unfolding spec_date_def using assms by blast+

lemma spec_time_forms:
  assumes "digits 2 hh" "sep CHR '':'' c" "digits 2 mi" "digits 2 ss" "fraction us"
  shows "spec_time hh" "spec_time (hh @ c @ mi)" "spec_time (hh @ c @ mi @ c @ ss)"
    "spec_time (hh @ c @ mi @ c @ ss @ str ''.'' @ us)"
  unfolding spec_time_def using assms by blast+

lemma spec_tzinfo_forms:
  assumes "is_sign sg" "digits 2 th" "sep CHR '':'' c1" "digits 2 tzm" "sep CHR '':'' c2"
    "digits 2 tzs"
  shows "spec_tzinfo (str ''Z'')" "spec_tzinfo (sg # th)" "spec_tzinfo (sg # th @ c1 @ tzm)"
    "spec_tzinfo (sg # th @ c1 @ tzm @ c2 @ tzs)"
  unfolding spec_tzinfo_def using assms by blast+

text \<open>
  C4. The separator of the date and the separator of the time are chosen independently.
  Every date of the grammar followed by T, every time of the grammar and an optional
  designator is accepted by both patterns, whatever the separators of the two parts. Spelled
  out: for all digits, each of the three date forms, written with hyphens or without,
  followed by each time form that has a separator, written with colons or without, is
  accepted. In particular \<^verbatim>\<open>2020-01-02T123456\<close> is accepted, and so are
  \<^verbatim>\<open>20200102T12:34:56\<close>, \<^verbatim>\<open>2020-W01-2T1234\<close>, \<^verbatim>\<open>2020W012T12:34\<close>,
  \<^verbatim>\<open>2020-123T123456.5\<close> and \<^verbatim>\<open>2020123T12:34:56Z\<close>. The colon is constrained within
  the time field only: \<^verbatim>\<open>2020-01-02T12:3456\<close> and \<^verbatim>\<open>20200102T12:3456\<close> are rejected.
\<close>

theorem separators_independent:
  "(spec_date dt \<and> spec_time tm \<and> (tz = [] \<or> spec_tzinfo tz) \<longrightarrow>
      is_valid (dt @ str ''T'' @ tm @ tz) \<and> decompose (dt @ str ''T'' @ tm @ tz) \<noteq> None) \<and>
   (digits 4 yr \<and> digits 2 mo \<and> digits 2 d \<and> digits 2 wk \<and>
    cu CHR ''1'' \<le> wd \<and> wd \<le> cu CHR ''7'' \<and> digits 3 od \<and>
    digits 2 hh \<and> digits 2 mi \<and> digits 2 ss \<and> fraction us \<and>
    (h = [] \<or> h = str ''-'') \<and> (c = [] \<or> c = str '':'') \<and> (z = [] \<or> spec_tzinfo z) \<longrightarrow>
      (\<forall>d' \<in> set [yr @ h @ mo @ h @ d, yr @ h @ str ''W'' @ wk @ h @ [wd], yr @ h @ od].
       \<forall>t' \<in> set [hh @ c @ mi, hh @ c @ mi @ c @ ss, hh @ c @ mi @ c @ ss @ str ''.'' @ us].
         is_valid (d' @ str ''T'' @ t' @ z) \<and> decompose (d' @ str ''T'' @ t' @ z) \<noteq> None)) \<and>
   is_valid (str ''2020-01-02T123456'') \<and>
   (\<exists>m. decompose (str ''2020-01-02T123456'') = Some m \<and>
      groups m ymd_hyphen = Some (str ''-'') \<and> groups m hms_colon = Some []) \<and>
   is_valid (str ''20200102T12:34:56'') \<and>
   (\<exists>m. decompose (str ''20200102T12:34:56'') = Some m \<and>
      groups m ymd_hyphen = Some [] \<and> groups m hms_colon = Some (str '':'')) \<and>
   is_valid (str ''2020-W01-2T1234'') \<and>
   (\<exists>m. decompose (str ''2020-W01-2T1234'') = Some m \<and>
      groups m ywd_hyphen = Some (str ''-'') \<and> groups m hms_colon = Some []) \<and>
   is_valid (str ''2020W012T12:34'') \<and>
   (\<exists>m. decompose (str ''2020W012T12:34'') = Some m \<and>
      groups m ywd_hyphen = Some [] \<and> groups m hms_colon = Some (str '':'')) \<and>
   is_valid (str ''2020-123T123456.5'') \<and>
   (\<exists>m. decompose (str ''2020-123T123456.5'') = Some m \<and>
      groups m date = Some (str ''2020-123'') \<and> groups m hms_colon = Some []) \<and>
   is_valid (str ''2020123T12:34:56Z'') \<and>
   (\<exists>m. decompose (str ''2020123T12:34:56Z'') = Some m \<and>
      groups m date = Some (str ''2020123'') \<and> groups m hms_colon = Some (str '':'')) \<and>
   \<not> is_valid (str ''2020-01-02T12:3456'') \<and>
   decompose (str ''2020-01-02T12:3456'') = None \<and>
   \<not> is_valid (str ''20200102T12:3456'') \<and>
   decompose (str ''20200102T12:3456'') = None"
proof (intro conjI impI)
  assume "spec_date dt \<and> spec_time tm \<and> (tz = [] \<or> spec_tzinfo tz)"
  then have "is_valid (dt @ str ''T'' @ tm @ tz) \<and>
      decompose (dt @ str ''T'' @ tm @ tz) \<noteq> None"
    by (intro spec_accepted) simp_all
  then show "is_valid (dt @ str ''T'' @ tm @ tz)" "decompose (dt @ str ''T'' @ tm @ tz) \<noteq> None"
    by simp_all
next
  assume a: "digits 4 yr \<and> digits 2 mo \<and> digits 2 d \<and> digits 2 wk \<and>
    cu CHR ''1'' \<le> wd \<and> wd \<le> cu CHR ''7'' \<and> digits 3 od \<and>
    digits 2 hh \<and> digits 2 mi \<and> digits 2 ss \<and> fraction us \<and>
    (h = [] \<or> h = str ''-'') \<and> (c = [] \<or> c = str '':'') \<and> (z = [] \<or> spec_tzinfo z)"
  then have s: "sep CHR ''-'' h" "sep CHR '':'' c"
    by (simp_all add: sep_def str_def)
  show "\<forall>d' \<in> set [yr @ h @ mo @ h @ d, yr @ h @ str ''W'' @ wk @ h @ [wd], yr @ h @ od].
       \<forall>t' \<in> set [hh @ c @ mi, hh @ c @ mi @ c @ ss, hh @ c @ mi @ c @ ss @ str ''.'' @ us].
         is_valid (d' @ str ''T'' @ t' @ z) \<and> decompose (d' @ str ''T'' @ t' @ z) \<noteq> None"
  proof (intro ballI)
    fix d' t'
    assume d': "d' \<in> set [yr @ h @ mo @ h @ d, yr @ h @ str ''W'' @ wk @ h @ [wd], yr @ h @ od]"
      and t': "t' \<in> set [hh @ c @ mi, hh @ c @ mi @ c @ ss,
        hh @ c @ mi @ c @ ss @ str ''.'' @ us]"
    have "spec_date d'"
      using d' a s(1) spec_date_forms [of yr h mo d wk wd od] by auto
    moreover have "spec_time t'"
      using t' a s(2) spec_time_forms [of hh c mi ss us] by auto
    ultimately show "is_valid (d' @ str ''T'' @ t' @ z) \<and>
        decompose (d' @ str ''T'' @ t' @ z) \<noteq> None"
      using a by (intro spec_accepted) simp_all
  qed
qed (simp_all add: eval_simps)

theorem separators_independent_witness:
  "is_valid (str ''1999'' @ str ''-'' @ str ''W'' @ str ''52'' @ str ''-'' @ [cu CHR ''7''] @
     str ''T'' @ (str ''23'' @ [] @ str ''59'' @ [] @ str ''58'') @ str ''Z'') \<and>
   is_valid ((str ''1999'' @ [] @ str ''365'') @
     str ''T'' @ (str ''23'' @ str '':'' @ str ''59'') @ []) \<and>
   is_valid (str ''1999-12-31'' @ str ''T'' @ str ''2359'' @ [])"
proof -
  have d: "digits 4 (str ''1999'')" "digits 2 (str ''12'')" "digits 2 (str ''31'')"
    "digits 2 (str ''52'')" "digits 3 (str ''365'')"
    "digits 2 (str ''23'')" "digits 2 (str ''59'')" "digits 2 (str ''58'')"
    by (simp_all add: is_digit_def cu_def)
  have w: "cu CHR ''1'' \<le> cu CHR ''7''" "cu CHR ''7'' \<le> cu CHR ''7''"
    by (simp_all add: cu_def)
  have f: "fraction (str ''5'')"
    by (simp add: fraction_def str_def is_digit_def cu_def)
  have z: "spec_tzinfo (str ''Z'')"
    by (simp add: spec_tzinfo_def)
  note t = separators_independent [of _ _ _ "str ''1999''" "str ''12''" "str ''31''" "str ''52''"
      "cu CHR ''7''" "str ''365''" "str ''23''" "str ''59''" "str ''58''" "str ''5''"]
  from d w f z t [of "[]" "[]" "[]" "str ''-''" "[]" "str ''Z''"]
  have "\<forall>d' \<in> set [str ''1999'' @ str ''-'' @ str ''12'' @ str ''-'' @ str ''31'',
          str ''1999'' @ str ''-'' @ str ''W'' @ str ''52'' @ str ''-'' @ [cu CHR ''7''],
          str ''1999'' @ str ''-'' @ str ''365''].
       \<forall>t' \<in> set [str ''23'' @ [] @ str ''59'', str ''23'' @ [] @ str ''59'' @ [] @ str ''58'',
          str ''23'' @ [] @ str ''59'' @ [] @ str ''58'' @ str ''.'' @ str ''5''].
         is_valid (d' @ str ''T'' @ t' @ str ''Z'') \<and>
         decompose (d' @ str ''T'' @ t' @ str ''Z'') \<noteq> None"
    by blast
  then have 1: "is_valid (str ''1999'' @ str ''-'' @ str ''W'' @ str ''52'' @ str ''-'' @
     [cu CHR ''7''] @ str ''T'' @ (str ''23'' @ [] @ str ''59'' @ [] @ str ''58'') @ str ''Z'')"
    by simp
  from d w f t [of "[]" "[]" "[]" "[]" "str '':''" "[]"]
  have "\<forall>d' \<in> set [str ''1999'' @ [] @ str ''12'' @ [] @ str ''31'',
          str ''1999'' @ [] @ str ''W'' @ str ''52'' @ [] @ [cu CHR ''7''],
          str ''1999'' @ [] @ str ''365''].
       \<forall>t' \<in> set [str ''23'' @ str '':'' @ str ''59'',
          str ''23'' @ str '':'' @ str ''59'' @ str '':'' @ str ''58'',
          str ''23'' @ str '':'' @ str ''59'' @ str '':'' @ str ''58'' @ str ''.'' @ str ''5''].
         is_valid (d' @ str ''T'' @ t' @ []) \<and> decompose (d' @ str ''T'' @ t' @ []) \<noteq> None"
    by blast
  then have 2: "is_valid ((str ''1999'' @ [] @ str ''365'') @
     str ''T'' @ (str ''23'' @ str '':'' @ str ''59'') @ [])"
    by simp
  have "spec_date (str ''1999-12-31'')"
    using spec_date_forms(1) [of "str ''1999''" "str ''-''" "str ''12''" "str ''31''"
        "str ''52''" "cu CHR ''7''" "str ''365''"] d w
    by (simp add: sep_def str_def)
  moreover have "spec_time (str ''2359'')"
    using spec_time_forms(2) [of "str ''23''" "[]" "str ''59''" "str ''58''" "str ''5''"] d f
    by (simp add: sep_def str_def)
  ultimately have 3: "is_valid (str ''1999-12-31'' @ str ''T'' @ str ''2359'' @ [])"
    using separators_independent [of "str ''1999-12-31''" "str ''2359''" "[]"]
    by blast
  from 1 2 3 show ?thesis
    by blast
qed

text \<open>
  C8. No calendar validation takes place: every input of the grammar is accepted by both
  patterns, and the grammar asks of a numeric field only its number of digits (for the
  weekday, one digit from 1 to 7). Spelled out: for all digits in year, month, day, week,
  ordinal day, hour, minute, second, fraction and the fields of the designator, with or
  without separators, each date form followed by T, each time form and each form of the
  designator is accepted. In particular \<^verbatim>\<open>2020-13-99T12:34:56\<close>, with month 13 and
  day 99, is accepted by the fast-check pattern and decomposed by the expanded one, which
  reports month \<^verbatim>\<open>13\<close> and day \<^verbatim>\<open>99\<close>; hour 29, week 99, minute 99, second 99,
  ordinal day 999 and the offset \<^verbatim>\<open>+99:99:99\<close> pass as well, also without separators.
\<close>

theorem no_semantic_validation:
  "(spec_datetime inp \<longrightarrow> is_valid inp \<and> decompose inp \<noteq> None) \<and>
   (digits 4 yr \<and> digits 2 mo \<and> digits 2 d \<and> digits 2 wk \<and>
    cu CHR ''1'' \<le> wd \<and> wd \<le> cu CHR ''7'' \<and> digits 3 od \<and>
    digits 2 hh \<and> digits 2 mi \<and> digits 2 ss \<and> fraction us \<and>
    is_sign sg \<and> digits 2 th \<and> digits 2 tzm \<and> digits 2 tzs \<and>
    (h = [] \<or> h = str ''-'') \<and> (c = [] \<or> c = str '':'') \<and>
    (c1 = [] \<or> c1 = str '':'') \<and> (c2 = [] \<or> c2 = str '':'') \<longrightarrow>
      (\<forall>d' \<in> set [yr @ h @ mo @ h @ d, yr @ h @ str ''W'' @ wk @ h @ [wd], yr @ h @ od].
       \<forall>t' \<in> set [hh, hh @ c @ mi, hh @ c @ mi @ c @ ss,
                   hh @ c @ mi @ c @ ss @ str ''.'' @ us].
       \<forall>z' \<in> set [[], str ''Z'', sg # th, sg # th @ c1 @ tzm, sg # th @ c1 @ tzm @ c2 @ tzs].
         is_valid (d' @ str ''T'' @ t' @ z') \<and> decompose (d' @ str ''T'' @ t' @ z') \<noteq> None)) \<and>
   is_valid (str ''2020-13-99T12:34:56'') \<and>
   (\<exists>m. decompose (str ''2020-13-99T12:34:56'') = Some m \<and>
      groups m month = Some (str ''13'') \<and> groups m day = Some (str ''99'')) \<and>
   is_valid (str ''2020-01-02T29:34:56'') \<and>
   (\<exists>m. decompose (str ''2020-01-02T29:34:56'') = Some m \<and> groups m hour = Some (str ''29'')) \<and>
   is_valid (str ''2020-W99-7T99:99:99'') \<and>
   (\<exists>m. decompose (str ''2020-W99-7T99:99:99'') = Some m \<and>
      groups m week = Some (str ''99'') \<and> groups m hour = Some (str ''99'') \<and>
      groups m minute = Some (str ''99'') \<and> groups m second = Some (str ''99'')) \<and>
   is_valid (str ''2020999T99+99:99:99'') \<and>
   (\<exists>m. decompose (str ''2020999T99+99:99:99'') = Some m \<and>
      groups m ordinalday = Some (str ''999'') \<and> groups m tzhour = Some (str ''99'') \<and>
      groups m tzminute = Some (str ''99'') \<and> groups m tzsecond = Some (str ''99'')) \<and>
   is_valid (str ''20201399T299999'') \<and>
   (\<exists>m. decompose (str ''20201399T299999'') = Some m \<and>
      groups m month = Some (str ''13'') \<and> groups m day = Some (str ''99'') \<and>
      groups m hour = Some (str ''29'') \<and> groups m minute = Some (str ''99''))"
proof (intro conjI impI)
  assume "spec_datetime inp"
  then show d: "decompose inp \<noteq> None"
    by (rule spec_decompose)
  then show "is_valid inp"
    by (simp add: is_valid_decompose)
next
  assume a: "digits 4 yr \<and> digits 2 mo \<and> digits 2 d \<and> digits 2 wk \<and>
    cu CHR ''1'' \<le> wd \<and> wd \<le> cu CHR ''7'' \<and> digits 3 od \<and>
    digits 2 hh \<and> digits 2 mi \<and> digits 2 ss \<and> fraction us \<and>
    is_sign sg \<and> digits 2 th \<and> digits 2 tzm \<and> digits 2 tzs \<and>
    (h = [] \<or> h = str ''-'') \<and> (c = [] \<or> c = str '':'') \<and>
    (c1 = [] \<or> c1 = str '':'') \<and> (c2 = [] \<or> c2 = str '':'')"
  then have s: "sep CHR ''-'' h" "sep CHR '':'' c" "sep CHR '':'' c1" "sep CHR '':'' c2"
    by (simp_all add: sep_def str_def)
  show "\<forall>d' \<in> set [yr @ h @ mo @ h @ d, yr @ h @ str ''W'' @ wk @ h @ [wd], yr @ h @ od].
       \<forall>t' \<in> set [hh, hh @ c @ mi, hh @ c @ mi @ c @ ss,
                   hh @ c @ mi @ c @ ss @ str ''.'' @ us].
       \<forall>z' \<in> set [[], str ''Z'', sg # th, sg # th @ c1 @ tzm, sg # th @ c1 @ tzm @ c2 @ tzs].
         is_valid (d' @ str ''T'' @ t' @ z') \<and> decompose (d' @ str ''T'' @ t' @ z') \<noteq> None"
  proof (intro ballI)
    fix d' t' z'
    assume d': "d' \<in> set [yr @ h @ mo @ h @ d, yr @ h @ str ''W'' @ wk @ h @ [wd], yr @ h @ od]"
      and t': "t' \<in> set [hh, hh @ c @ mi, hh @ c @ mi @ c @ ss,
                   hh @ c @ mi @ c @ ss @ str ''.'' @ us]"
      and z': "z' \<in> set [[], str ''Z'', sg # th, sg # th @ c1 @ tzm,
                   sg # th @ c1 @ tzm @ c2 @ tzs]"
    have "spec_date d'"
      using d' a s(1) spec_date_forms [of yr h mo d wk wd od] by auto
    moreover have "spec_time t'"
      using t' a s(2) spec_time_forms [of hh c mi ss us] by auto
    moreover have "z' = [] \<or> spec_tzinfo z'"
      using z' a s(3,4) spec_tzinfo_forms [of sg th c1 tzm c2 tzs] by auto
    ultimately show "is_valid (d' @ str ''T'' @ t' @ z') \<and>
        decompose (d' @ str ''T'' @ t' @ z') \<noteq> None"
      by (rule spec_accepted)
  qed
qed (simp_all add: eval_simps)

theorem no_semantic_validation_witness:
  "is_valid (str ''0000'' @ [] @ str ''W'' @ str ''88'' @ [] @ [cu CHR ''1''] @ str ''T'' @
     (str ''77'' @ str '':'' @ str ''66'' @ str '':'' @ str ''99'') @
     (cu CHR ''-'' # str ''55'' @ [] @ str ''99'' @ str '':'' @ str ''61'')) \<and>
   is_valid ((str ''0000'' @ [] @ str ''00'' @ [] @ str ''00'') @ str ''T'' @ str ''77'' @ []) \<and>
   spec_datetime ((str ''0000'' @ [] @ str ''000'') @ str ''T'' @ str ''77'' @ []) \<and>
   decompose ((str ''0000'' @ [] @ str ''000'') @ str ''T'' @ str ''77'' @ []) \<noteq> None"
proof -
  have d: "digits 4 (str ''0000'')" "digits 2 (str ''00'')" "digits 2 (str ''88'')"
    "digits 3 (str ''000'')" "digits 2 (str ''77'')" "digits 2 (str ''66'')"
    "digits 2 (str ''99'')" "digits 2 (str ''55'')" "digits 2 (str ''61'')"
    by (simp_all add: is_digit_def cu_def)
  have w: "cu CHR ''1'' \<le> cu CHR ''1''" "cu CHR ''1'' \<le> cu CHR ''7''"
    by (simp_all add: cu_def)
  have f: "fraction (str ''5'')"
    by (simp add: fraction_def str_def is_digit_def cu_def)
  have g: "is_sign (cu CHR ''-'')"
    by (simp add: is_sign_def)
  from d w f g no_semantic_validation [of _ "str ''0000''" "str ''00''" "str ''00''" "str ''88''"
      "cu CHR ''1''" "str ''000''" "str ''77''" "str ''66''" "str ''99''" "str ''5''"
      "cu CHR ''-''" "str ''55''" "str ''99''" "str ''61''" "[]" "str '':''" "[]" "str '':''"]
  have a: "\<forall>d' \<in> set [str ''0000'' @ [] @ str ''00'' @ [] @ str ''00'',
          str ''0000'' @ [] @ str ''W'' @ str ''88'' @ [] @ [cu CHR ''1''],
          str ''0000'' @ [] @ str ''000''].
       \<forall>t' \<in> set [str ''77'', str ''77'' @ str '':'' @ str ''66'',
          str ''77'' @ str '':'' @ str ''66'' @ str '':'' @ str ''99'',
          str ''77'' @ str '':'' @ str ''66'' @ str '':'' @ str ''99'' @ str ''.'' @ str ''5''].
       \<forall>z' \<in> set [[], str ''Z'', cu CHR ''-'' # str ''55'',
          cu CHR ''-'' # str ''55'' @ [] @ str ''99'',
          cu CHR ''-'' # str ''55'' @ [] @ str ''99'' @ str '':'' @ str ''61''].
         is_valid (d' @ str ''T'' @ t' @ z') \<and> decompose (d' @ str ''T'' @ t' @ z') \<noteq> None"
    by blast
  then have 1: "is_valid (str ''0000'' @ [] @ str ''W'' @ str ''88'' @ [] @ [cu CHR ''1''] @
     str ''T'' @ (str ''77'' @ str '':'' @ str ''66'' @ str '':'' @ str ''99'') @
     (cu CHR ''-'' # str ''55'' @ [] @ str ''99'' @ str '':'' @ str ''61''))"
    by simp
  from a have 2: "is_valid ((str ''0000'' @ [] @ str ''00'' @ [] @ str ''00'') @ str ''T'' @
     str ''77'' @ [])"
    by simp
  have "spec_date (str ''0000'' @ [] @ str ''000'')"
    using spec_date_forms(3) [of "str ''0000''" "[]" "str ''00''" "str ''00''"
        "str ''88''" "cu CHR ''1''" "str ''000''"] d w
    by (simp add: sep_def)
  moreover have "spec_time (str ''77'')"
    using spec_time_forms(1) [of "str ''77''" "[]" "str ''66''" "str ''99''" "str ''5''"] d f
    by (simp add: sep_def)
  ultimately have 3: "spec_datetime ((str ''0000'' @ [] @ str ''000'') @ str ''T'' @
      str ''77'' @ [])"
    unfolding spec_datetime_def by blast
  with no_semantic_validation [of "(str ''0000'' @ [] @ str ''000'') @ str ''T'' @ str ''77'' @ []"]
  have 4: "decompose ((str ''0000'' @ [] @ str ''000'') @ str ''T'' @ str ''77'' @ []) \<noteq> None"
    by blast
  from 1 2 3 4 show ?thesis
    by blast
qed

text \<open>
  C9. Decomposition is a total function into an optional result: there is no fault. Its
  result is absent exactly on the inputs that violate the grammar of the specification;
  when there is a result, it is a full one (the match is the whole input and the groups
  \<open>date\<close>, \<open>year\<close>, \<open>time\<close> and \<open>hour\<close> are present). The date-only input
  \<^verbatim>\<open>2020-01-02\<close> violates the grammar, and its result is absent.
\<close>

theorem grammar_violation_is_no_match:
  "(decompose inp = None) = (\<not> spec_datetime inp) \<and>
   (decompose inp = Some m \<longrightarrow>
      matched m = inp \<and> groups m date \<noteq> None \<and> groups m year \<noteq> None \<and>
      groups m time \<noteq> None \<and> groups m hour \<noteq> None) \<and>
   \<not> spec_datetime (str ''2020-01-02'') \<and>
   decompose (str ''2020-01-02'') = None"
proof (intro conjI impI)
  show "(decompose inp = None) = (\<not> spec_datetime inp)"
    using decompose_iff_spec [of inp] by blast
next
  assume "decompose inp = Some m"
  from decompose_shape [OF this] obtain dt tm where
    i: "matched m = inp" and d: "date_shape dt (groups m)" and t: "time_shape tm (groups m)"
    by blast
  show "matched m = inp" by (rule i)
  from d show "groups m date \<noteq> None" "groups m year \<noteq> None"
    unfolding date_shape_def by auto
  from t show "groups m time \<noteq> None" "groups m hour \<noteq> None"
    unfolding time_shape_def by auto
next
  show "\<not> spec_datetime (str ''2020-01-02'')"
    by (auto dest!: spec_datetime_T simp: str_def cu_def)
next
  show "decompose (str ''2020-01-02'') = None"
    by (simp add: eval_simps)
qed

theorem grammar_violation_is_no_match_witness:
  "\<not> spec_datetime (str ''2020-W01-2'') \<and> decompose (str ''2020-W01-2'') = None \<and>
   (\<exists>m. decompose (str ''2020-01-02T12'') = Some m \<and>
      matched m = str ''2020-01-02T12'' \<and> groups m hour \<noteq> None)"
proof -
  have n: "\<not> spec_datetime (str ''2020-W01-2'')"
    by (auto dest!: spec_datetime_T simp: str_def cu_def)
  have "decompose (str ''2020-01-02T12'') \<noteq> None"
    by (simp add: eval_simps)
  then obtain m where m: "decompose (str ''2020-01-02T12'') = Some m"
    by blast
  from grammar_violation_is_no_match [of "str ''2020-W01-2''" m] n
  have "decompose (str ''2020-W01-2'') = None"
    by blast
  moreover from grammar_violation_is_no_match [of "str ''2020-01-02T12''" m] m
  have "matched m = str ''2020-01-02T12'' \<and> groups m hour \<noteq> None"
    by blast
  ultimately show ?thesis
    using n m by blast
qed

section \<open>One more character before or after an accepted input\<close>

lemma not_digit_chars:
  "\<not> is_digit (cu CHR ''T'')" "\<not> is_digit (cu CHR ''-'')" "\<not> is_digit (cu CHR '':'')"
  "\<not> is_digit (cu CHR ''.'')" "\<not> is_digit (cu CHR ''Z'')" "\<not> is_digit (cu CHR ''W'')"
  "\<not> is_digit (cu CHR ''+'')" "\<not> is_digit 0x2212"
  by (simp_all add: is_digit_def cu_def)

lemma digits_notin: "digits n w \<Longrightarrow> \<not> is_digit a \<Longrightarrow> a \<notin> set w"
  by (auto simp: digits_def list_all_iff)

lemma digits_filter: "digits n w \<Longrightarrow> filter is_digit w = w"
  by (simp add: digits_def list_all_iff)

lemma fraction_filter: "fraction w \<Longrightarrow> filter is_digit w = w"
  by (simp add: fraction_def list_all_iff)

lemma sep_filter:
  "sep CHR ''-'' h \<Longrightarrow> filter is_digit h = []" "sep CHR '':'' h \<Longrightarrow> filter is_digit h = []"
  by (auto simp: sep_def not_digit_chars)

lemma date_shape_noT: "date_shape w G \<Longrightarrow> cu CHR ''T'' \<notin> set w"
  unfolding date_shape_def
  by (elim conjE exE disjE)
     (auto simp: sep_def str_def is_digit_def digits_def list_all_iff cu_def)

lemma date_shape_length:
  "date_shape w G \<Longrightarrow> (length w = 7 \<and> digits 7 w) \<or> length w = 8 \<or> length w = 10"
  unfolding date_shape_def
  by (elim conjE exE disjE)
     (auto simp: sep_def str_def digits_def)

lemma T_split:
  "cu CHR ''T'' \<notin> set u \<Longrightarrow> cu CHR ''T'' \<notin> set u' \<Longrightarrow>
   u @ str ''T'' @ v = u' @ str ''T'' @ v' \<Longrightarrow> u = u' \<and> v = v'"
proof (induction u arbitrary: u')
  case Nil
  then show ?case by (cases u') (auto simp: str_def)
next
  case (Cons a u)
  then show ?case by (cases u') (auto simp: str_def)
qed

lemma digits_8_calendar:
  assumes "digits 8 w"
  shows "spec_date w"
proof -
  let ?yr = "take 4 w" and ?mo = "take 2 (drop 4 w)" and ?d = "drop 6 w"
  have "digits 4 ?yr" "digits 2 ?mo" "digits 2 ?d"
    using assms by (auto simp: digits_def list_all_iff dest: in_set_takeD in_set_dropD)
  moreover have "w = ?yr @ [] @ ?mo @ [] @ ?d"
  proof -
    have A: "drop 2 (drop 4 w) = ?d"
      by simp
    have "?mo @ drop 2 (drop 4 w) = drop 4 w"
      by (rule append_take_drop_id)
    then have "?mo @ ?d = drop 4 w"
      unfolding A .
    then have "take 4 w @ drop 4 w = ?yr @ ?mo @ ?d"
      by simp
    then show ?thesis
      by simp
  qed
  moreover have "sep CHR ''-'' []"
    by (simp add: sep_def)
  ultimately show ?thesis
    unfolding spec_date_def by blast
qed

lemma prefix_accepted:
  assumes d: "decompose s = Some r" and c: "is_digit c"
    and g: "groups r date = Some dt" "digits 7 dt"
  shows "decompose (c # s) \<noteq> None"
proof -
  from decompose_shape [OF d] obtain dt' tm tz where
    s: "s = dt' @ str ''T'' @ tm @ tz" and D: "date_shape dt' (groups r)"
    and T: "time_shape tm (groups r)" and Z: "tz_shape tz (groups r)"
    by blast
  from D g(1) have "dt' = dt"
    by (simp add: date_shape_def)
  with g(2) c have "digits 8 (c # dt')"
    by (simp add: digits_def)
  then have "spec_date (c # dt')"
    by (rule digits_8_calendar)
  with time_shape_spec [OF T] tz_shape_spec [OF Z]
  have "spec_datetime ((c # dt') @ str ''T'' @ tm @ tz)"
    unfolding spec_datetime_def by blast
  then show ?thesis
    using spec_decompose s by fastforce
qed

lemma prefix_only:
  assumes d: "decompose s = Some r" and e: "decompose (c # s) = Some r'"
  shows "is_digit c \<and> (\<exists>dt. groups r date = Some dt \<and> digits 7 dt)"
proof -
  from decompose_shape [OF d] obtain dt tm tz where
    s: "s = dt @ str ''T'' @ tm @ tz" and D: "date_shape dt (groups r)"
    by blast
  from decompose_shape [OF e] obtain dt' tm' tz' where
    s': "c # s = dt' @ str ''T'' @ tm' @ tz'" and D': "date_shape dt' (groups r')"
    by blast
  from decompose_first [OF e] have c: "is_digit c"
    by simp
  then have "cu CHR ''T'' \<notin> set (c # dt)"
    using date_shape_noT [OF D] not_digit_chars(1) by auto
  moreover have "(c # dt) @ str ''T'' @ tm @ tz = dt' @ str ''T'' @ tm' @ tz'"
    using s s' by simp
  ultimately have "c # dt = dt'"
    using date_shape_noT [OF D'] T_split by blast
  then have "length dt' = Suc (length dt)"
    by auto
  with date_shape_length [OF D] date_shape_length [OF D'] have "digits 7 dt"
    by auto
  moreover from D have "groups r date = Some dt"
    by (simp add: date_shape_def)
  ultimately show ?thesis
    using c by blast
qed

lemma time_shape_no_start: "time_shape w G \<Longrightarrow> \<forall>x \<in> set w. \<not> tz_start x"
  unfolding time_shape_def
  by (elim conjE exE disjE)
     (auto simp: sep_def str_def digits_def fraction_def list_all_iff tz_start_def is_sign_def
        is_digit_def cu_def)

lemma tz_shape_start: "tz_shape w G \<Longrightarrow> w = [] \<or> tz_start (hd w)"
  unfolding tz_shape_def
  by (elim conjE exE disjE) (auto simp: str_def tz_start_def)

lemma start_split:
  "\<forall>x \<in> set u. \<not> P x \<Longrightarrow> \<forall>x \<in> set u'. \<not> P x \<Longrightarrow> v = [] \<or> P (hd v) \<Longrightarrow>
   v' = [] \<or> P (hd v') \<Longrightarrow> u @ v = u' @ v' \<Longrightarrow> u = u' \<and> v = v'"
proof (induction u arbitrary: u')
  case Nil
  then show ?case by (cases u') auto
next
  case (Cons a u)
  then show ?case by (cases u') auto
qed

lemma time_shape_count:
  "time_shape w G \<Longrightarrow>
     (G microsecond = None \<and> cu CHR ''.'' \<notin> set w \<and> even (length (filter is_digit w))) \<or>
     (\<exists>us. G microsecond = Some us \<and> fraction us \<and> cu CHR ''.'' \<in> set w \<and>
        length (filter is_digit w) = 6 + length us)"
  unfolding time_shape_def
  apply (elim conjE exE disjE)
     apply (simp_all add: digits_filter fraction_filter sep_filter str_def not_digit_chars)
     apply (auto simp: digits_def sep_def list_all_iff not_digit_chars)
    apply (simp_all add: cu_def)
  done

lemma time_shape_extend:
  assumes "time_shape w G" "G microsecond = Some us" "length us < 6" "is_digit c"
  shows "spec_time (w @ [c])"
proof -
  from assms(1,2) obtain hh s mi ss where
    p: "digits 2 hh" "sep CHR '':'' s" "digits 2 mi" "digits 2 ss" "fraction us"
      "w = hh @ s @ mi @ s @ ss @ str ''.'' @ us"
    unfolding time_shape_def by (elim conjE exE disjE) auto
  have "fraction (us @ [c])"
    using p(5) assms(3,4) by (simp add: fraction_def)
  moreover have "w @ [c] = hh @ s @ mi @ s @ ss @ str ''.'' @ (us @ [c])"
    by (simp add: p(6))
  ultimately show ?thesis
    unfolding spec_time_def using p(1-4) by blast
qed

lemma time_shape_one_more:
  assumes a: "time_shape w G" and b: "time_shape (w @ [c]) G'"
  shows "is_digit c \<and> (\<exists>us. G microsecond = Some us \<and> length us < 6)"
proof -
  from time_shape_ends [OF b] have c: "is_digit c"
    by (simp add: ends_with_def)
  have n: "length (filter is_digit (w @ [c])) = Suc (length (filter is_digit w))"
    using c by simp
  have d: "(cu CHR ''.'' \<in> set (w @ [c])) = (cu CHR ''.'' \<in> set w)"
    using c not_digit_chars(4) by auto
  from time_shape_count [OF a] time_shape_count [OF b] show ?thesis
    unfolding n d using c by (auto simp: fraction_def)
qed

lemma sign_not_digit: "is_sign sg \<Longrightarrow> \<not> is_digit sg"
  by (auto simp: is_sign_def not_digit_chars)

lemma sign_not_Z: "is_sign sg \<Longrightarrow> cu CHR ''Z'' \<noteq> sg"
  by (auto simp: is_sign_def cu_def)

lemma sep_no_Z: "sep CHR '':'' h \<Longrightarrow> cu CHR ''Z'' \<notin> set h"
  by (auto simp: sep_def cu_def)

lemma digits_no_Z: "digits n w \<Longrightarrow> cu CHR ''Z'' \<notin> set w"
  by (rule digits_notin) (simp_all add: not_digit_chars)

lemma digits_count: "digits n w \<Longrightarrow> length (filter is_digit w) = n"
  by (simp add: digits_filter) (simp add: digits_def)

lemma tz_shape_count:
  "tz_shape w G \<Longrightarrow> w = [] \<or> w = str ''Z'' \<or>
     (even (length (filter is_digit w)) \<and> cu CHR ''Z'' \<notin> set w)"
  unfolding tz_shape_def
  by (elim conjE exE disjE)
     (simp_all add: digits_count sep_filter sign_not_digit sign_not_Z sep_no_Z digits_no_Z)

lemma tz_shape_one_more:
  assumes a: "tz_shape w G" and n: "w \<noteq> []" and b: "tz_shape (w @ [c]) G'"
  shows False
proof -
  from tz_shape_count [OF b] n
  have e: "even (length (filter is_digit (w @ [c])))" and z: "cu CHR ''Z'' \<notin> set (w @ [c])"
    by (auto simp: str_def)
  from tz_shape_ends [OF b] z have c: "is_digit c"
    by (auto simp: ends_with_def)
  from e c have "odd (length (filter is_digit w))"
    by simp
  with tz_shape_count [OF a] n z show False
    by (auto simp: str_def)
qed

lemma tz_shape_absent: "tz_shape w G \<Longrightarrow> (G tzinfo = None) = (w = [])"
  unfolding tz_shape_def
  by (elim conjE exE disjE) (auto simp: str_def)

lemma tz_shape_single: "tz_shape [c] G \<Longrightarrow> c = cu CHR ''Z''"
  unfolding tz_shape_def
  by (elim conjE exE disjE) (auto simp: str_def digits_def)

lemma suffix_only:
  assumes d: "decompose s = Some r" and e: "decompose (s @ [c]) = Some r'"
  shows "groups r tzinfo = None \<and>
    (c = cu CHR ''Z'' \<or> is_digit c \<and> (\<exists>us. groups r microsecond = Some us \<and> length us < 6))"
proof -
  from decompose_shape [OF d] obtain dt tm tz where
    s: "s = dt @ str ''T'' @ tm @ tz" and D: "date_shape dt (groups r)"
    and T: "time_shape tm (groups r)" and Z: "tz_shape tz (groups r)"
    by blast
  from decompose_shape [OF e] obtain dt' tm' tz' where
    s': "s @ [c] = dt' @ str ''T'' @ tm' @ tz'" and D': "date_shape dt' (groups r')"
    and T': "time_shape tm' (groups r')" and Z': "tz_shape tz' (groups r')"
    by blast
  have "dt @ str ''T'' @ (tm @ tz @ [c]) = dt' @ str ''T'' @ (tm' @ tz')"
    using s s' by simp
  with date_shape_noT [OF D] date_shape_noT [OF D'] have q: "tm @ (tz @ [c]) = tm' @ tz'"
    using T_split by blast
  note nt = time_shape_no_start [OF T] and nt' = time_shape_no_start [OF T']
  show ?thesis
  proof (cases "tz = []")
    case False
    then have "tz @ [c] = [] \<or> tz_start (hd (tz @ [c]))"
      using tz_shape_start [OF Z] by simp
    from start_split [OF nt nt' this tz_shape_start [OF Z'] q] have "tz' = tz @ [c]"
      by simp
    with tz_shape_one_more [OF Z False] Z' show ?thesis
      by blast
  next
    case True
    then have g: "groups r tzinfo = None"
      using tz_shape_absent [OF Z] by simp
    show ?thesis
    proof (cases "tz_start c")
      case True
      then have "tz @ [c] = [] \<or> tz_start (hd (tz @ [c]))"
        using \<open>tz = []\<close> by simp
      from start_split [OF nt nt' this tz_shape_start [OF Z'] q] have "tz' = [c]"
        using \<open>tz = []\<close> by simp
      with Z' tz_shape_single have "c = cu CHR ''Z''"
        by blast
      with g show ?thesis by simp
    next
      case False
      have "tz' = []"
      proof (rule ccontr)
        assume ne: "tz' \<noteq> []"
        with tz_shape_start [OF Z'] have h: "tz_start (hd tz')"
          by simp
        from ne have "hd tz' \<in> set (tm' @ tz')"
          by simp
        then have "hd tz' \<in> set (tm @ [c])"
          using q \<open>tz = []\<close> by simp
        then have "hd tz' \<in> set tm \<or> hd tz' = c"
          by auto
        with h nt False show False
          by auto
      qed
      with q \<open>tz = []\<close> have "tm' = tm @ [c]"
        by simp
      with T' time_shape_one_more [OF T] g show ?thesis
        by blast
    qed
  qed
qed

lemma suffix_accepted:
  assumes d: "decompose s = Some r" and g: "groups r tzinfo = None"
    and c: "c = cu CHR ''Z'' \<or>
      is_digit c \<and> (\<exists>us. groups r microsecond = Some us \<and> length us < 6)"
  shows "decompose (s @ [c]) \<noteq> None"
proof -
  from decompose_shape [OF d] obtain dt tm tz where
    s: "s = dt @ str ''T'' @ tm @ tz" and D: "date_shape dt (groups r)"
    and T: "time_shape tm (groups r)" and Z: "tz_shape tz (groups r)"
    by blast
  from tz_shape_absent [OF Z] g have tz: "tz = []"
    by simp
  from c have "spec_datetime (s @ [c])"
  proof
    assume "c = cu CHR ''Z''"
    then have "spec_tzinfo [c]"
      by (simp add: spec_tzinfo_def str_def)
    with date_shape_spec [OF D] time_shape_spec [OF T]
    have "spec_datetime (dt @ str ''T'' @ tm @ [c])"
      unfolding spec_datetime_def by blast
    then show ?thesis
      by (simp add: s tz)
  next
    assume "is_digit c \<and> (\<exists>us. groups r microsecond = Some us \<and> length us < 6)"
    then obtain us where "is_digit c" "groups r microsecond = Some us" "length us < 6"
      by blast
    from time_shape_extend [OF T this(2,3,1)] date_shape_spec [OF D]
    have "spec_datetime (dt @ str ''T'' @ (tm @ [c]) @ [])"
      unfolding spec_datetime_def by blast
    then show ?thesis
      by (simp add: s tz)
  qed
  then show ?thesis
    by (rule spec_decompose)
qed

text \<open>
  C5 as stated fails: an accepted string can stay accepted when a character is put
  before or after it. \<^verbatim>\<open>2020-01-02T12\<close> and \<^verbatim>\<open>2020-01-02T12Z\<close> are both accepted
  (the suffix Z), and so are \<^verbatim>\<open>2020-01-02T12:34:56.1\<close> and
  \<^verbatim>\<open>2020-01-02T12:34:56.12\<close> (a digit as suffix: the fraction grows) and
  \<^verbatim>\<open>2020123T12\<close> and \<^verbatim>\<open>12020123T12\<close> (a digit as prefix: the ordinal date becomes
  a calendar date).
\<close>

theorem anchoring_counterexample:
  "is_valid (str ''2020-01-02T12'') \<and> is_valid (str ''2020-01-02T12'' @ str ''Z'') \<and>
   decompose (str ''2020-01-02T12'') \<noteq> None \<and>
   decompose (str ''2020-01-02T12'' @ str ''Z'') \<noteq> None \<and>
   is_valid (str ''2020-01-02T12:34:56.1'') \<and>
   is_valid (str ''2020-01-02T12:34:56.1'' @ str ''2'') \<and>
   decompose (str ''2020-01-02T12:34:56.1'') \<noteq> None \<and>
   decompose (str ''2020-01-02T12:34:56.1'' @ str ''2'') \<noteq> None \<and>
   is_valid (str ''2020123T12'') \<and> is_valid (str ''1'' @ str ''2020123T12'') \<and>
   decompose (str ''2020123T12'') \<noteq> None \<and>
   decompose (str ''1'' @ str ''2020123T12'') \<noteq> None"
  by (simp add: eval_simps)

text \<open>
  C5, amended. Both patterns are anchored to the entire input: a match, when there is
  one, starts at index 0 and its text is the whole input, so a match of a proper part of
  the input never counts. A string that starts with a character other than a digit is
  rejected, and so is a string that ends with a character other than a digit or Z. For an
  accepted input (the two patterns accept the same inputs) and a character \<open>c\<close>, the
  input with \<open>c\<close> before it is accepted by both patterns exactly when \<open>c\<close> is a digit and
  the date of the input is seven digits, an ordinal date without hyphen; the input with
  \<open>c\<close> after it is accepted by both patterns exactly when the input has no time zone
  designator and either \<open>c\<close> is Z, or \<open>c\<close> is a digit and the input ends with a fraction
  of fewer than six digits. In every other case the longer string is rejected.
\<close>

theorem whole_input_anchoring:
  "(js_match inp regex_iso8601_datetime = Some m \<longrightarrow> index m = 0 \<and> matched m = inp) \<and>
   (js_match inp regex_iso8601_datetime_minimalist = Some m' \<longrightarrow>
      index m' = 0 \<and> matched m' = inp) \<and>
   (\<not> is_digit c \<longrightarrow> \<not> is_valid (c # inp) \<and> decompose (c # inp) = None) \<and>
   (\<not> is_digit c \<and> c \<noteq> cu CHR ''Z'' \<longrightarrow>
      \<not> is_valid (inp @ [c]) \<and> decompose (inp @ [c]) = None) \<and>
   is_valid inp = (\<exists>r. decompose inp = Some r) \<and>
   (decompose inp = Some m \<longrightarrow>
      is_valid (c # inp) = (is_digit c \<and> (\<exists>dt. groups m date = Some dt \<and> digits 7 dt)) \<and>
      (decompose (c # inp) \<noteq> None) =
        (is_digit c \<and> (\<exists>dt. groups m date = Some dt \<and> digits 7 dt)) \<and>
      is_valid (inp @ [c]) =
        (groups m tzinfo = None \<and>
         (c = cu CHR ''Z'' \<or>
          is_digit c \<and> (\<exists>us. groups m microsecond = Some us \<and> length us < 6))) \<and>
      (decompose (inp @ [c]) \<noteq> None) =
        (groups m tzinfo = None \<and>
         (c = cu CHR ''Z'' \<or>
          is_digit c \<and> (\<exists>us. groups m microsecond = Some us \<and> length us < 6))))"
proof (intro conjI impI)
  assume "js_match inp regex_iso8601_datetime = Some m"
  then have "decompose inp = Some m"
    by (simp add: decompose_def)
  from decompose_shape [OF this] show "index m = 0" "matched m = inp"
    by blast+
next
  assume a: "js_match inp regex_iso8601_datetime_minimalist = Some m'"
  from minimalist_anchored obtain r where
    r: "regex_iso8601_datetime_minimalist = Seq Bol r" "ends_eol r"
    by blast
  from js_match_anchored [OF a [unfolded r(1)] r(2)]
  show "index m' = 0" "matched m' = inp"
    by simp_all
next
  assume c: "\<not> is_digit c"
  show d: "decompose (c # inp) = None"
  proof (rule ccontr)
    assume "decompose (c # inp) \<noteq> None"
    then obtain m where "decompose (c # inp) = Some m" by blast
    from decompose_first [OF this] c show False by simp
  qed
  then show "\<not> is_valid (c # inp)"
    by (simp add: is_valid_decompose)
next
  assume c: "\<not> is_digit c \<and> c \<noteq> cu CHR ''Z''"
  show d: "decompose (inp @ [c]) = None"
  proof (rule ccontr)
    assume "decompose (inp @ [c]) \<noteq> None"
    then obtain m where "decompose (inp @ [c]) = Some m" by blast
    from decompose_last [OF this] c show False by (simp add: ends_with_def)
  qed
  then show "\<not> is_valid (inp @ [c])"
    by (simp add: is_valid_decompose)
next
  show "is_valid inp = (\<exists>r. decompose inp = Some r)"
    by (simp add: is_valid_decompose)
next
  assume d: "decompose inp = Some m"
  show p: "(decompose (c # inp) \<noteq> None) =
      (is_digit c \<and> (\<exists>dt. groups m date = Some dt \<and> digits 7 dt))"
    using prefix_only [OF d, of c] prefix_accepted [OF d, of c] by blast
  then show "is_valid (c # inp) = (is_digit c \<and> (\<exists>dt. groups m date = Some dt \<and> digits 7 dt))"
    by (simp add: is_valid_decompose)
  show s: "(decompose (inp @ [c]) \<noteq> None) =
      (groups m tzinfo = None \<and>
       (c = cu CHR ''Z'' \<or>
        is_digit c \<and> (\<exists>us. groups m microsecond = Some us \<and> length us < 6)))"
    using suffix_only [OF d, of c] suffix_accepted [OF d, of c] by blast
  then show "is_valid (inp @ [c]) =
      (groups m tzinfo = None \<and>
       (c = cu CHR ''Z'' \<or>
        is_digit c \<and> (\<exists>us. groups m microsecond = Some us \<and> length us < 6)))"
    by (simp add: is_valid_decompose)
qed

theorem whole_input_anchoring_witness:
  "(\<exists>m. js_match (str ''2020123T12:34:56.1'') regex_iso8601_datetime = Some m \<and>
         index m = 0 \<and> matched m = str ''2020123T12:34:56.1'') \<and>
   (\<exists>m'. js_match (str ''2020123T12:34:56.1'') regex_iso8601_datetime_minimalist = Some m' \<and>
         index m' = 0 \<and> matched m' = str ''2020123T12:34:56.1'') \<and>
   is_valid (cu CHR ''7'' # str ''2020123T12:34:56.1'') \<and>
   is_valid (str ''2020123T12:34:56.1'' @ [cu CHR ''7'']) \<and>
   is_valid (str ''2020123T12:34:56.1'' @ [cu CHR ''Z'']) \<and>
   \<not> is_valid (cu CHR ''x'' # str ''2020123T12:34:56.1'') \<and>
   \<not> is_valid (str ''2020123T12:34:56.1'' @ [cu CHR ''x'']) \<and>
   \<not> is_valid (cu CHR ''7'' # str ''2020-01-02T12:34:56Z'') \<and>
   \<not> is_valid (str ''2020-01-02T12:34:56Z'' @ [cu CHR ''7'']) \<and>
   \<not> is_valid (str ''2020-01-02T12:34:56Z'' @ [cu CHR ''Z'']) \<and>
   decompose (cu CHR ''7'' # str ''2020-01-02T12:34:56Z'') = None \<and>
   decompose (str ''2020-01-02T12:34:56Z'' @ [cu CHR ''7'']) = None"
proof -
  have x: "\<not> is_digit (cu CHR ''x'')" "cu CHR ''x'' \<noteq> cu CHR ''Z''"
    "is_digit (cu CHR ''7'')" "cu CHR ''7'' \<noteq> cu CHR ''Z''"
    by (simp_all add: is_digit_def cu_def)
  have "\<exists>m. decompose (str ''2020123T12:34:56.1'') = Some m \<and>
      groups m date = Some (str ''2020123'') \<and> groups m tzinfo = None \<and>
      groups m microsecond = Some (str ''1'')"
    by (simp add: eval_simps)
  then obtain m where m: "decompose (str ''2020123T12:34:56.1'') = Some m"
    "groups m date = Some (str ''2020123'')" "groups m tzinfo = None"
    "groups m microsecond = Some (str ''1'')"
    by blast
  have "js_match (str ''2020123T12:34:56.1'') regex_iso8601_datetime_minimalist \<noteq> None"
    by (simp add: eval_simps)
  then obtain m' where
    m': "js_match (str ''2020123T12:34:56.1'') regex_iso8601_datetime_minimalist = Some m'"
    by blast
  have "\<exists>n. decompose (str ''2020-01-02T12:34:56Z'') = Some n \<and>
      groups n date = Some (str ''2020-01-02'') \<and> groups n tzinfo = Some (str ''Z'')"
    by (simp add: eval_simps)
  then obtain n where n: "decompose (str ''2020-01-02T12:34:56Z'') = Some n"
    "groups n date = Some (str ''2020-01-02'')" "groups n tzinfo = Some (str ''Z'')"
    by blast
  have l: "digits 7 (str ''2020123'')" "\<not> digits 7 (str ''2020-01-02'')"
    by (simp_all add: is_digit_def cu_def)
  have k: "length (str ''1'') < 6"
    by (simp add: str_def)
  note A = whole_input_anchoring [of "str ''2020123T12:34:56.1''" m m']
  note B = whole_input_anchoring [of "str ''2020-01-02T12:34:56Z''" n m']
  from m(1) have j: "js_match (str ''2020123T12:34:56.1'') regex_iso8601_datetime = Some m"
    by (simp add: decompose_def)
  from A [of "cu CHR ''7''"] j m'
  have 1: "index m = 0 \<and> matched m = str ''2020123T12:34:56.1''"
    "index m' = 0 \<and> matched m' = str ''2020123T12:34:56.1''"
    by blast+
  from A [of "cu CHR ''7''"] m l k x
  have 2: "is_valid (cu CHR ''7'' # str ''2020123T12:34:56.1'')"
    "is_valid (str ''2020123T12:34:56.1'' @ [cu CHR ''7''])"
    by simp_all
  from A [of "cu CHR ''Z''"] m
  have 3: "is_valid (str ''2020123T12:34:56.1'' @ [cu CHR ''Z''])"
    by simp
  from A [of "cu CHR ''x''"] x
  have 4: "\<not> is_valid (cu CHR ''x'' # str ''2020123T12:34:56.1'')"
    "\<not> is_valid (str ''2020123T12:34:56.1'' @ [cu CHR ''x''])"
    by simp_all
  from B [of "cu CHR ''7''"] n l
  have 5: "\<not> is_valid (cu CHR ''7'' # str ''2020-01-02T12:34:56Z'')"
    "\<not> is_valid (str ''2020-01-02T12:34:56Z'' @ [cu CHR ''7''])"
    "decompose (cu CHR ''7'' # str ''2020-01-02T12:34:56Z'') = None"
    "decompose (str ''2020-01-02T12:34:56Z'' @ [cu CHR ''7'']) = None"
    by simp_all
  from B [of "cu CHR ''Z''"] n
  have 6: "\<not> is_valid (str ''2020-01-02T12:34:56Z'' @ [cu CHR ''Z''])"
    by simp
  from 1 2 3 4 5 6 j m' show ?thesis
    by blast
qed

end
